theory Spec2Isabelle
  imports Main "HOL-Library.Word"
begin

unbundle bit_operations_syntax

text \<open>
  A model of the trace-driven cache simulator: the geometry validation, the address
  widths, the per-reference processing of \<^verbatim>\<open>cache.c\<close> and the driver of \<^verbatim>\<open>cachesim.c\<close>.
  Every C function is a function on an explicit cache value; what the C code does to
  the process (\<^verbatim>\<open>exit\<close>, undefined behaviour) is a value of type \<open>fault\<close>. Output
  (\<^verbatim>\<open>printf\<close>) is not modelled.
\<close>

section \<open>Data model (cache\_structs.h, trace\_file\_parser.h)\<close>

text \<open>
  \<^verbatim>\<open>unsigned int\<close> is a 32-bit word: \<open>+\<close> and \<open>*\<close> wrap, \<open>div\<close> truncates.
  The loops of \<^verbatim>\<open>is_power_of_two\<close> and \<^verbatim>\<open>log_two\<close> run \<^verbatim>\<open>sizeof(int)<<3\<close> = 32 times.
\<close>

type_synonym u32 = "32 word"

record address_info =
  address_width :: u32
  offset_width :: u32
  index_width :: u32
  tag_width :: u32

record cache_perf =
  instruction_reference_count :: u32
  instruction_miss_count :: u32
  data_read_reference_count :: u32
  data_read_miss_count :: u32
  data_write_reference_count :: u32
  data_write_miss_count :: u32

record cache_block =
  valid :: bool
  dirty :: bool
  lru_value :: u32
  tag :: u32

text \<open>
  \<^verbatim>\<open>struct cache\<close>. The field \<^verbatim>\<open>size\<close> is called \<open>cache_size\<close> here.
  \<^verbatim>\<open>blocks\<close> is the array of sets, each set an array of blocks.
\<close>

record cache =
  cache_size :: u32
  associativity :: u32
  number_of_sets :: u32
  block_size :: u32
  addr_info :: address_info
  blocks :: "cache_block list list"
  perf :: cache_perf

text \<open>
  The field \<^verbatim>\<open>type\<close> of a reference: the three values of \<^verbatim>\<open>enum REFERENCE_TYPE\<close>, and
  \<open>OUT_OF_RANGE\<close> for any other content of the field. \<^verbatim>\<open>get_next_reference\<close> returns the
  field unset when a line does not parse or its letter is none of I, R, W, and \<^verbatim>\<open>main\<close>
  hands such a reference to \<^verbatim>\<open>do_reference\<close>; the \<^verbatim>\<open>default\<close> branches of the two
  \<^verbatim>\<open>switch\<close> statements are for it.
\<close>

datatype REFERENCE_TYPE = INSTRUCTION | DATA_READ | DATA_WRITE | OUT_OF_RANGE

record memory_reference =
  address :: u32
  ref_type :: REFERENCE_TYPE

text \<open>
  What ends a run other than a normal return: \<^verbatim>\<open>exit(1)\<close> in \<^verbatim>\<open>handle_miss\<close>, and the
  three undefined behaviours the code can reach (unsigned division by zero, an array
  access outside its allocation, a dereference of \<^verbatim>\<open>NULL\<close>).
\<close>

datatype fault = Exited int | DivideByZero | OutOfBounds | NullDereference

text \<open>
  The platform: \<^verbatim>\<open>sizeof(void*)\<close> is 4 or 8 on the data models where \<^verbatim>\<open>int\<close> has 32 bits.
\<close>

datatype data_model = ILP32 | LP64

fun sizeof_void_ptr :: "data_model \<Rightarrow> nat" where
  "sizeof_void_ptr ILP32 = 4"
| "sizeof_void_ptr LP64 = 8"

text \<open>
  The allocator: whether each \<^verbatim>\<open>malloc\<close> of \<^verbatim>\<open>create_cache_struct\<close> succeeds, and the
  indeterminate contents of the field \<^verbatim>\<open>lru_value\<close>, which the initialisation loop
  never writes.
\<close>

record heap =
  malloc_cache :: bool
  malloc_blocks :: bool
  malloc_set :: "nat \<Rightarrow> bool"
  lru_garbage :: "nat \<Rightarrow> nat \<Rightarrow> u32"

text \<open>
  The argument of \<^verbatim>\<open>malloc\<close> is a \<^verbatim>\<open>size_t\<close> product, which wraps at the width of a
  pointer. \<open>room dm n elt\<close> is the number of elements of \<open>elt\<close> bytes that fit in what
  \<^verbatim>\<open>malloc(n * elt)\<close> gives (the arithmetic is written on integers).
  \<^verbatim>\<open>struct cache_block\<close> has 12 bytes (two \<^verbatim>\<open>bool\<close>, padding, two \<^verbatim>\<open>unsigned int\<close>); a
  pointer to one has \<^verbatim>\<open>sizeof(void*)\<close> bytes.
\<close>

definition sizeof_cache_block :: nat where
  "sizeof_cache_block = 12"

definition room :: "data_model \<Rightarrow> nat \<Rightarrow> nat \<Rightarrow> nat" where
  "room dm n elt = nat (((int n * int elt) mod 2 ^ (8 * sizeof_void_ptr dm)) div int elt)"

text \<open>No allocation size of a cache of \<open>nsets\<close> sets of \<open>assoc\<close> blocks wraps.\<close>

definition sizes_fit :: "data_model \<Rightarrow> nat \<Rightarrow> nat \<Rightarrow> bool" where
  "sizes_fit dm nsets assoc =
     (nsets * sizeof_void_ptr dm < 2 ^ (8 * sizeof_void_ptr dm)
      \<and> assoc * sizeof_cache_block < 2 ^ (8 * sizeof_void_ptr dm))"

section \<open>Geometry validation (cache.c)\<close>

text \<open>\<^verbatim>\<open>is_power_of_two\<close>: the bit-counting loop, \<open>r\<close> iterations left.\<close>

fun count_bits :: "nat \<Rightarrow> u32 \<Rightarrow> u32 \<Rightarrow> u32" where
  "count_bits 0 number count = count"
| "count_bits (Suc r) number count =
     count_bits r (drop_bit 1 number) (if number AND 1 \<noteq> 0 then count + 1 else count)"

definition is_power_of_two :: "u32 \<Rightarrow> bool" where
  "is_power_of_two n = (count_bits 32 n 0 = 1)"

text \<open>\<^verbatim>\<open>log_two\<close>: the loop looks for the first set bit; \<open>r\<close> iterations left, at position \<open>i\<close>.\<close>

fun first_one :: "nat \<Rightarrow> nat \<Rightarrow> u32 \<Rightarrow> int" where
  "first_one 0 i number = - 1"
| "first_one (Suc r) i number =
     (if number AND 1 = 1 then int i else first_one r (Suc i) (drop_bit 1 number))"

definition log_two :: "u32 \<Rightarrow> int" where
  "log_two n = (if \<not> is_power_of_two n then - 1 else first_one 32 0 n)"

text \<open>
  \<^verbatim>\<open>determine_address_widths\<close>. The \<^verbatim>\<open>int\<close> result of \<^verbatim>\<open>log_two\<close> is stored in an
  \<^verbatim>\<open>unsigned int\<close>, so the failure value -1 is the word of all ones.
\<close>

definition determine_address_widths :: "data_model \<Rightarrow> cache \<Rightarrow> cache" where
  "determine_address_widths dm c =
     (let width = (word_of_nat (push_bit 3 (sizeof_void_ptr dm)) :: u32);
          offset_w = (word_of_int (log_two (block_size c)) :: u32);
          index_w = (word_of_int (log_two (number_of_sets c)) :: u32);
          tag_w = width - offset_w - index_w;
          a0 = \<lparr>address_width = 0, offset_width = 0, index_width = 0, tag_width = 0\<rparr>;
          a1 = (if offset_w = - 1 then a0 else a0\<lparr>offset_width := offset_w\<rparr>);
          a2 = (if index_w = - 1 then a1 else a1\<lparr>index_width := index_w\<rparr>);
          a3 = (if offset_w \<noteq> - 1 \<and> index_w \<noteq> - 1
                then a2\<lparr>address_width := width, tag_width := tag_w\<rparr> else a2)
      in c\<lparr>addr_info := a3\<rparr>)"

definition new_block :: "heap \<Rightarrow> nat \<Rightarrow> nat \<Rightarrow> cache_block" where
  "new_block h i j = \<lparr>valid = False, dirty = False, lru_value = lru_garbage h i j, tag = 0\<rparr>"

definition zero_perf :: cache_perf where
  "zero_perf = \<lparr>instruction_reference_count = 0, instruction_miss_count = 0,
                 data_read_reference_count = 0, data_read_miss_count = 0,
                 data_write_reference_count = 0, data_write_miss_count = 0\<rparr>"

text \<open>
  The initialisation loop of \<^verbatim>\<open>create_cache_struct\<close> at set \<open>i\<close>, \<open>r\<close> sets left.
  \<open>room_sets\<close> is the room of the array of set pointers and \<open>room_blocks\<close> the room of
  one set. Storing the pointer of a set beyond the array, or initialising a block beyond
  its set, is outside the allocation; the \<^verbatim>\<open>malloc\<close> of a set is not checked, so its
  first block is written through \<^verbatim>\<open>NULL\<close> when it fails.
\<close>

fun init_sets :: "heap \<Rightarrow> nat \<Rightarrow> nat \<Rightarrow> nat \<Rightarrow> nat \<Rightarrow> nat \<Rightarrow> fault + cache_block list list" where
  "init_sets h assoc room_sets room_blocks i 0 = Inr []"
| "init_sets h assoc room_sets room_blocks i (Suc r) =
     (if room_sets \<le> i then Inl OutOfBounds
      else if 0 < assoc \<and> \<not> malloc_set h i then Inl NullDereference
      else if room_blocks < assoc then Inl OutOfBounds
      else case init_sets h assoc room_sets room_blocks (Suc i) r of
             Inl f \<Rightarrow> Inl f
           | Inr rest \<Rightarrow> Inr (map (new_block h i) [0..<assoc] # rest))"

text \<open>
  \<^verbatim>\<open>create_cache_struct\<close>. \<open>Inr None\<close> is the \<^verbatim>\<open>NULL\<close> return, \<open>Inr (Some c)\<close> a cache.
  The divisor \<^verbatim>\<open>associativity * block_size\<close> is the wrapped 32-bit product; when it is 0
  the division is undefined.
\<close>

definition create_cache_struct ::
  "heap \<Rightarrow> data_model \<Rightarrow> u32 \<Rightarrow> u32 \<Rightarrow> u32 \<Rightarrow> fault + cache option" where
  "create_cache_struct h dm sz assoc bsize =
     (if \<not> is_power_of_two bsize then Inr None
      else if assoc * bsize = 0 then Inl DivideByZero
      else let nsets = sz div (assoc * bsize) in
        if nsets = 0 then Inr None
        else if \<not> is_power_of_two nsets then Inr None
        else if \<not> malloc_cache h then Inr None
        else if \<not> malloc_blocks h then Inr None
        else case init_sets h (unat assoc)
                    (room dm (unat nsets) (sizeof_void_ptr dm))
                    (room dm (unat assoc) sizeof_cache_block) 0 (unat nsets) of
               Inl f \<Rightarrow> Inl f
             | Inr sets \<Rightarrow>
                 Inr (Some (determine_address_widths dm
                   \<lparr>cache_size = sz, associativity = assoc, number_of_sets = nsets,
                    block_size = bsize,
                    addr_info = \<lparr>address_width = 0, offset_width = 0, index_width = 0,
                                 tag_width = 0\<rparr>,
                    blocks = sets,
                    perf = zero_perf\<rparr>)))"

section \<open>Reference processing (cache.c)\<close>

text \<open>
  The two decoders. The shifts are 32-bit shifts; the shift counts are below 32 in
  every cache that \<^verbatim>\<open>create_cache_struct\<close> returns (lemma \<open>create_cache_struct_SomeE\<close>).
  For an index width of 31 the C expression \<^verbatim>\<open>(1 << 31) - 1\<close> leaves the range of \<^verbatim>\<open>int\<close>;
  the model takes the two's-complement result, the mask of 31 ones.
\<close>

definition get_index_from_address :: "u32 \<Rightarrow> cache \<Rightarrow> u32" where
  "get_index_from_address a c =
     (let mask = push_bit (unat (index_width (addr_info c))) 1 - 1
      in drop_bit (unat (offset_width (addr_info c))) a AND mask)"

definition get_tag_from_address :: "u32 \<Rightarrow> cache \<Rightarrow> u32" where
  "get_tag_from_address a c =
     (let bits_to_shift = offset_width (addr_info c) + index_width (addr_info c)
      in drop_bit (unat bits_to_shift) a)"

text \<open>
  \<^verbatim>\<open>is_miss\<close>: the scan of the set \<open>cb\<close> from block \<open>i\<close>, \<open>r\<close> iterations left. Reading
  a block the set does not have is outside the allocation.
\<close>

fun is_miss_loop :: "u32 \<Rightarrow> cache_block list \<Rightarrow> nat \<Rightarrow> nat \<Rightarrow> fault + bool" where
  "is_miss_loop tg cb i 0 = Inr True"
| "is_miss_loop tg cb i (Suc r) =
     (if length cb \<le> i then Inl OutOfBounds
      else let temp = cb ! i in
        if tag temp = tg \<and> valid temp then Inr False
        else is_miss_loop tg cb (Suc i) r)"

definition is_miss :: "u32 \<Rightarrow> u32 \<Rightarrow> cache \<Rightarrow> fault + bool" where
  "is_miss tg index c =
     (if length (blocks c) \<le> unat index then Inl OutOfBounds
      else is_miss_loop tg (blocks c ! unat index) 0 (unat (associativity c)))"

text \<open>\<^verbatim>\<open>handle_miss\<close>: \<^verbatim>\<open>exit(1)\<close> unless the associativity is 1; block 0 is overwritten.\<close>

definition handle_miss :: "u32 \<Rightarrow> u32 \<Rightarrow> bool \<Rightarrow> cache \<Rightarrow> fault + cache" where
  "handle_miss tg index write c =
     (if associativity c \<noteq> 1 then Inl (Exited 1)
      else if length (blocks c) \<le> unat index then Inl OutOfBounds
      else let cb = blocks c ! unat index in
        if cb = [] then Inl OutOfBounds
        else Inr (c\<lparr>blocks := (blocks c)[unat index :=
               cb[0 := (cb ! 0)\<lparr>valid := True, dirty := write, tag := tg\<rparr>]]\<rparr>))"

text \<open>
  \<^verbatim>\<open>update_lru_info\<close>, first loop: \<open>None\<close> is the early \<^verbatim>\<open>return\<close> at a matching block
  whose \<^verbatim>\<open>lru_value\<close> is 0, \<open>Some block_index\<close> the index the loop ends with.
\<close>

fun lru_find :: "u32 \<Rightarrow> cache_block list \<Rightarrow> nat \<Rightarrow> nat \<Rightarrow> nat \<Rightarrow> fault + nat option" where
  "lru_find tg cb i 0 block_index = Inr (Some block_index)"
| "lru_find tg cb i (Suc r) block_index =
     (if length cb \<le> i then Inl OutOfBounds
      else if valid (cb ! i) \<and> tag (cb ! i) = tg
        then (if lru_value (cb ! i) = 0 then Inr None
              else lru_find tg cb (Suc i) r i)
        else lru_find tg cb (Suc i) r block_index)"

text \<open>Second loop: block \<open>block_index\<close> gets 0, every other block is incremented.\<close>

fun lru_age :: "cache_block list \<Rightarrow> nat \<Rightarrow> nat \<Rightarrow> nat \<Rightarrow> fault + cache_block list" where
  "lru_age cb i 0 block_index = Inr cb"
| "lru_age cb i (Suc r) block_index =
     (if length cb \<le> i then Inl OutOfBounds
      else lru_age
             (cb[i := (cb ! i)\<lparr>lru_value :=
                (if i = block_index then 0 else lru_value (cb ! i) + 1)\<rparr>])
             (Suc i) r block_index)"

text \<open>
  \<^verbatim>\<open>update_lru_info\<close>. With associativity 0 neither loop runs and no array is read.
\<close>

definition update_lru_info :: "u32 \<Rightarrow> u32 \<Rightarrow> cache \<Rightarrow> fault + cache" where
  "update_lru_info tg index c =
     (if associativity c = 0 then Inr c
      else if length (blocks c) \<le> unat index then Inl OutOfBounds
      else let cb = blocks c ! unat index in
        case lru_find tg cb 0 (unat (associativity c)) 0 of
          Inl f \<Rightarrow> Inl f
        | Inr None \<Rightarrow> Inr c
        | Inr (Some block_index) \<Rightarrow>
            (case lru_age cb 0 (unat (associativity c)) block_index of
               Inl f \<Rightarrow> Inl f
             | Inr cb' \<Rightarrow> Inr (c\<lparr>blocks := (blocks c)[unat index := cb']\<rparr>)))"

text \<open>The two \<^verbatim>\<open>switch\<close> statements on the type; the \<^verbatim>\<open>default\<close> branch does nothing.\<close>

definition count_miss :: "REFERENCE_TYPE \<Rightarrow> cache_perf \<Rightarrow> cache_perf" where
  "count_miss t p =
     (case t of
        INSTRUCTION \<Rightarrow> p\<lparr>instruction_miss_count := instruction_miss_count p + 1\<rparr>
      | DATA_READ \<Rightarrow> p\<lparr>data_read_miss_count := data_read_miss_count p + 1\<rparr>
      | DATA_WRITE \<Rightarrow> p\<lparr>data_write_miss_count := data_write_miss_count p + 1\<rparr>
      | OUT_OF_RANGE \<Rightarrow> p)"

definition count_reference :: "REFERENCE_TYPE \<Rightarrow> cache_perf \<Rightarrow> cache_perf" where
  "count_reference t p =
     (case t of
        INSTRUCTION \<Rightarrow> p\<lparr>instruction_reference_count := instruction_reference_count p + 1\<rparr>
      | DATA_READ \<Rightarrow> p\<lparr>data_read_reference_count := data_read_reference_count p + 1\<rparr>
      | DATA_WRITE \<Rightarrow> p\<lparr>data_write_reference_count := data_write_reference_count p + 1\<rparr>
      | OUT_OF_RANGE \<Rightarrow> p)"

definition do_reference :: "memory_reference \<Rightarrow> cache \<Rightarrow> fault + cache" where
  "do_reference m c =
     (let tg = get_tag_from_address (address m) c;
          index = get_index_from_address (address m) c
      in case is_miss tg index c of
           Inl f \<Rightarrow> Inl f
         | Inr miss \<Rightarrow>
             (case (if miss
                    then (case handle_miss tg index (ref_type m = DATA_WRITE) c of
                            Inl f \<Rightarrow> Inl f
                          | Inr c1 \<Rightarrow> Inr (c1\<lparr>perf := count_miss (ref_type m) (perf c1)\<rparr>))
                    else Inr c) of
                Inl f \<Rightarrow> Inl f
              | Inr c2 \<Rightarrow>
                  (case update_lru_info tg index c2 of
                     Inl f \<Rightarrow> Inl f
                   | Inr c3 \<Rightarrow> Inr (c3\<lparr>perf := count_reference (ref_type m) (perf c3)\<rparr>))))"

text \<open>The driver's loop over the trace: one \<^verbatim>\<open>do_reference\<close> per reference, in order.\<close>

fun do_references :: "memory_reference list \<Rightarrow> cache \<Rightarrow> fault + cache" where
  "do_references [] c = Inr c"
| "do_references (m # ms) c =
     (case do_reference m c of Inl f \<Rightarrow> Inl f | Inr c' \<Rightarrow> do_references ms c')"

section \<open>The driver (cachesim.c)\<close>

text \<open>
  The \<^verbatim>\<open>while\<close> loop of \<^verbatim>\<open>main\<close> on the pointer \<^verbatim>\<open>c\<close>, which is \<^verbatim>\<open>NULL\<close> (\<open>None\<close>) when
  \<^verbatim>\<open>create_cache_struct\<close> returned \<^verbatim>\<open>NULL\<close>: \<^verbatim>\<open>do_reference\<close> then reads \<^verbatim>\<open>c->addr_info\<close>.
\<close>

fun trace_loop :: "memory_reference list \<Rightarrow> cache option \<Rightarrow> fault + cache option" where
  "trace_loop [] c = Inr c"
| "trace_loop (m # ms) None = Inl NullDereference"
| "trace_loop (m # ms) (Some c) =
     (case do_reference m c of Inl f \<Rightarrow> Inl f | Inr c' \<Rightarrow> trace_loop ms (Some c'))"

text \<open>
  \<^verbatim>\<open>main\<close>. The arguments are \<^verbatim>\<open>argc\<close> and the three \<^verbatim>\<open>atoi\<close> results (\<^verbatim>\<open>int\<close>, read
  with \<open>sint\<close>); the trace is the list of references the parser yields, \<open>None\<close> when
  the file cannot be opened (\<^verbatim>\<open>feof\<close> is then called on \<^verbatim>\<open>NULL\<close>). \<open>Inr r\<close> is the value
  \<^verbatim>\<open>main\<close> returns. After the loop the statistics read \<^verbatim>\<open>c->perf\<close>.
\<close>

definition cachesim_main ::
  "heap \<Rightarrow> data_model \<Rightarrow> int \<Rightarrow> u32 \<Rightarrow> u32 \<Rightarrow> u32 \<Rightarrow> memory_reference list option
     \<Rightarrow> fault + int" where
  "cachesim_main h dm argc cache_sz cache_associativity cache_block_size trace =
     (if argc \<noteq> 5 then Inr (- 1)
      else let r0 = (0 :: int);
               r1 = (if sint cache_sz \<le> 0 then - 1 else r0);
               r2 = (if sint cache_associativity \<le> 0 then - 1 else r1);
               r3 = (if sint cache_block_size \<le> 0 then - 1 else r2);
               retval = (if sint cache_sz < sint cache_block_size
                            \<or> sint cache_sz < sint cache_associativity then - 1 else r3)
        in if retval = - 1 then Inr retval
           else case create_cache_struct h dm cache_sz cache_associativity cache_block_size of
                  Inl f \<Rightarrow> Inl f
                | Inr c \<Rightarrow>
                    (case trace of
                       None \<Rightarrow> Inl NullDereference
                     | Some ms \<Rightarrow>
                         (case trace_loop ms c of
                            Inl f \<Rightarrow> Inl f
                          | Inr None \<Rightarrow> Inl NullDereference
                          | Inr (Some c') \<Rightarrow> Inr retval)))"

section \<open>The statements of the specification\<close>

text \<open>
  The selection policy of the specification's \<open>install\<close>: the block with the maximum
  recency value, ties broken by the lowest block index. \<open>spec_lru_scan\<close> walks the
  rest of the set at index \<open>i\<close> with the best index and value so far.
\<close>

fun spec_lru_scan :: "cache_block list \<Rightarrow> nat \<Rightarrow> nat \<Rightarrow> u32 \<Rightarrow> nat" where
  "spec_lru_scan [] i best v = best"
| "spec_lru_scan (b # bs) i best v =
     (if v < lru_value b then spec_lru_scan bs (Suc i) i (lru_value b)
      else spec_lru_scan bs (Suc i) best v)"

definition spec_lru_victim :: "cache_block list \<Rightarrow> nat" where
  "spec_lru_victim cb = (case cb of [] \<Rightarrow> 0 | b # bs \<Rightarrow> spec_lru_scan bs 1 0 (lru_value b))"

definition spec_install :: "cache_block list \<Rightarrow> u32 \<Rightarrow> bool \<Rightarrow> cache_block list" where
  "spec_install cb tg is_write =
     cb[spec_lru_victim cb := (cb ! spec_lru_victim cb)\<lparr>valid := True, dirty := is_write, tag := tg\<rparr>]"

text \<open>The specification's \<open>touch\<close> of block \<open>k\<close> of a set.\<close>

definition spec_touch :: "cache_block list \<Rightarrow> nat \<Rightarrow> cache_block list" where
  "spec_touch cb k =
     (if lru_value (cb ! k) = 0 then cb
      else map (\<lambda>i. (cb ! i)\<lparr>lru_value := (if i = k then 0 else lru_value (cb ! i) + 1)\<rparr>)
             [0..<length cb])"

text \<open>What a block holds apart from its recency.\<close>

definition block_contents :: "cache_block \<Rightarrow> bool \<times> bool \<times> u32" where
  "block_contents b = (valid b, dirty b, tag b)"

text \<open>The recency invariant of one set.\<close>

definition recency_invariant :: "cache_block list \<Rightarrow> bool" where
  "recency_invariant cb =
     (list_ex valid cb \<longrightarrow> length (filter (\<lambda>b. lru_value b = 0) cb) = 1)"

text \<open>The total of the three reference counts, as unbounded numbers.\<close>

definition reference_total :: "cache_perf \<Rightarrow> nat" where
  "reference_total p =
     unat (instruction_reference_count p) + unat (data_read_reference_count p)
       + unat (data_write_reference_count p)"

text \<open>Every counter of \<open>p\<close> is at most the same counter of \<open>q\<close>.\<close>

definition perf_le :: "cache_perf \<Rightarrow> cache_perf \<Rightarrow> bool" where
  "perf_le p q =
     (instruction_reference_count p \<le> instruction_reference_count q
      \<and> instruction_miss_count p \<le> instruction_miss_count q
      \<and> data_read_reference_count p \<le> data_read_reference_count q
      \<and> data_read_miss_count p \<le> data_read_miss_count q
      \<and> data_write_reference_count p \<le> data_write_reference_count q
      \<and> data_write_miss_count p \<le> data_write_miss_count q)"

text \<open>The references of a trace whose type is one of the three enumerators.\<close>

definition typed :: "memory_reference list \<Rightarrow> memory_reference list" where
  "typed ms = filter (\<lambda>m. ref_type m \<noteq> OUT_OF_RANGE) ms"

text \<open>The reference counts total \<open>n\<close> and no miss count exceeds its reference count.\<close>

definition counts_ok :: "nat \<Rightarrow> cache_perf \<Rightarrow> bool" where
  "counts_ok n p =
     (unat (instruction_miss_count p) \<le> unat (instruction_reference_count p)
      \<and> unat (data_read_miss_count p) \<le> unat (data_read_reference_count p)
      \<and> unat (data_write_miss_count p) \<le> unat (data_write_reference_count p)
      \<and> reference_total p = n)"

section \<open>Well-formed caches and examples\<close>

text \<open>
  The shape \<^verbatim>\<open>create_cache_struct\<close> gives a cache: \<^verbatim>\<open>number_of_sets\<close> sets of
  \<^verbatim>\<open>associativity\<close> blocks, and \<^verbatim>\<open>number_of_sets\<close> = 2 to the \<^verbatim>\<open>index_width\<close>.
\<close>

definition wf_cache :: "cache \<Rightarrow> bool" where
  "wf_cache c =
     (length (blocks c) = unat (number_of_sets c)
      \<and> list_all (\<lambda>s. length s = unat (associativity c)) (blocks c)
      \<and> unat (index_width (addr_info c)) < 32
      \<and> number_of_sets c = 2 ^ unat (index_width (addr_info c)))"


definition widths_of :: "fault + cache option \<Rightarrow> address_info option" where
  "widths_of r = (case r of Inr (Some c) \<Rightarrow> Some (addr_info c) | _ \<Rightarrow> None)"

definition heap0 :: heap where
  "heap0 = \<lparr>malloc_cache = True, malloc_blocks = True, malloc_set = (\<lambda>i. True),
            lru_garbage = (\<lambda>i j. 7)\<rparr>"


definition fetch :: "u32 \<Rightarrow> memory_reference" where
  "fetch a = \<lparr>address = a, ref_type = INSTRUCTION\<rparr>"

definition store :: "u32 \<Rightarrow> memory_reference" where
  "store a = \<lparr>address = a, ref_type = DATA_WRITE\<rparr>"

text \<open>A reference whose type the parser left unset, with no enumerator in the field.\<close>

definition stray :: "u32 \<Rightarrow> memory_reference" where
  "stray a = \<lparr>address = a, ref_type = OUT_OF_RANGE\<rparr>"

text \<open>The cache of size 1 with one set of one block of one byte, on ILP32, as created.\<close>

definition tiny_cache :: cache where
  "tiny_cache =
     \<lparr>cache_size = 1, associativity = 1, number_of_sets = 1, block_size = 1,
      addr_info = \<lparr>address_width = 32, offset_width = 0, index_width = 0, tag_width = 32\<rparr>,
      blocks = [[\<lparr>valid = False, dirty = False, lru_value = 7, tag = 0\<rparr>]],
      perf = zero_perf\<rparr>"

text \<open>\<open>tiny_cache\<close> after the instruction fetch of address 0.\<close>

definition warm_cache :: cache where
  "warm_cache =
     \<lparr>cache_size = 1, associativity = 1, number_of_sets = 1, block_size = 1,
      addr_info = \<lparr>address_width = 32, offset_width = 0, index_width = 0, tag_width = 32\<rparr>,
      blocks = [[\<lparr>valid = True, dirty = False, lru_value = 0, tag = 0\<rparr>]],
      perf = \<lparr>instruction_reference_count = 1, instruction_miss_count = 1,
               data_read_reference_count = 0, data_read_miss_count = 0,
               data_write_reference_count = 0, data_write_miss_count = 0\<rparr>\<rparr>"

text \<open>The direct-mapped cache of size 2 with two sets of one byte, on ILP32, as created.\<close>

definition two_set_cache :: cache where
  "two_set_cache =
     \<lparr>cache_size = 2, associativity = 1, number_of_sets = 2, block_size = 1,
      addr_info = \<lparr>address_width = 32, offset_width = 0, index_width = 1, tag_width = 31\<rparr>,
      blocks = [[\<lparr>valid = False, dirty = False, lru_value = 7, tag = 0\<rparr>],
                [\<lparr>valid = False, dirty = False, lru_value = 7, tag = 0\<rparr>]],
      perf = zero_perf\<rparr>"

text \<open>The direct-mapped cache of size 8 with four sets of two bytes, on ILP32, as created.\<close>

definition quad_cache :: cache where
  "quad_cache =
     \<lparr>cache_size = 8, associativity = 1, number_of_sets = 4, block_size = 2,
      addr_info = \<lparr>address_width = 32, offset_width = 1, index_width = 2, tag_width = 29\<rparr>,
      blocks = [[\<lparr>valid = False, dirty = False, lru_value = 7, tag = 0\<rparr>],
                [\<lparr>valid = False, dirty = False, lru_value = 7, tag = 0\<rparr>],
                [\<lparr>valid = False, dirty = False, lru_value = 7, tag = 0\<rparr>],
                [\<lparr>valid = False, dirty = False, lru_value = 7, tag = 0\<rparr>]],
      perf = zero_perf\<rparr>"

text \<open>A two-way set holding tags 5 and 9, tag 9 the most recently used.\<close>

definition aged_cache :: cache where
  "aged_cache =
     \<lparr>cache_size = 2, associativity = 2, number_of_sets = 1, block_size = 1,
      addr_info = \<lparr>address_width = 32, offset_width = 0, index_width = 0, tag_width = 32\<rparr>,
      blocks = [[\<lparr>valid = True, dirty = False, lru_value = 1, tag = 5\<rparr>,
                 \<lparr>valid = True, dirty = False, lru_value = 0, tag = 9\<rparr>]],
      perf = zero_perf\<rparr>"

text \<open>The two-way cache of size 2 with one set of two blocks of one byte, as created.\<close>

definition two_way_cache :: cache where
  "two_way_cache =
     \<lparr>cache_size = 2, associativity = 2, number_of_sets = 1, block_size = 1,
      addr_info = \<lparr>address_width = 32, offset_width = 0, index_width = 0, tag_width = 32\<rparr>,
      blocks = [[\<lparr>valid = False, dirty = False, lru_value = 7, tag = 0\<rparr>,
                 \<lparr>valid = False, dirty = False, lru_value = 7, tag = 0\<rparr>]],
      perf = zero_perf\<rparr>"

section \<open>Powers of two\<close>

lemma count_bits_eq:
  "count_bits r w c = c + word_of_nat (length (filter (bit w) [0..<r]))"
proof (induction r arbitrary: w c)
  case 0
  show ?case by simp
next
  case (Suc r)
  have low: "(w AND 1 \<noteq> 0) = bit w 0"
    by (simp add: and_one_eq bit_0 odd_iff_mod_2_eq_one)
  have range: "[0..<Suc r] = 0 # map Suc [0..<r]"
    by (simp add: upt_conv_Cons map_Suc_upt del: upt_Suc)
  have shifted: "filter (bit w) (map Suc [0..<r]) = map Suc (filter (bit (drop_bit 1 w)) [0..<r])"
    by (simp add: filter_map comp_def bit_drop_bit_eq)
  show ?case
    unfolding count_bits.simps Suc.IH low range
    by (simp add: shifted del: upt_Suc)
qed

lemma filter_single:
  "distinct xs \<Longrightarrow>
   length (filter P xs) = 1 \<longleftrightarrow> (\<exists>x\<in>set xs. P x \<and> (\<forall>y\<in>set xs. P y \<longrightarrow> y = x))"
proof (induction xs)
  case Nil
  show ?case by simp
next
  case (Cons a xs)
  then show ?case by (auto simp: filter_empty_conv)
qed

lemma filter_upt_single:
  "length (filter P [0..<n]) = 1 \<longleftrightarrow> (\<exists>k<n. P k \<and> (\<forall>j<n. P j \<longrightarrow> j = k))"
proof -
  have "length (filter P [0..<n]) = 1
          \<longleftrightarrow> (\<exists>x\<in>set [0..<n]. P x \<and> (\<forall>y\<in>set [0..<n]. P y \<longrightarrow> y = x))"
    by (rule filter_single) simp
  also have "\<dots> \<longleftrightarrow> (\<exists>k<n. P k \<and> (\<forall>j<n. P j \<longrightarrow> j = k))"
    by (simp only: set_upt atLeastLessThan_iff Bex_def Ball_def le0 simp_thms conj_assoc)
  finally show ?thesis .
qed

lemma small_count: "n \<le> 32 \<Longrightarrow> (word_of_nat n = (1::u32)) = (n = 1)"
proof -
  assume "n \<le> 32"
  then have u: "unat (word_of_nat n :: u32) = n" by (simp add: unat_of_nat)
  show ?thesis
  proof
    assume "word_of_nat n = (1::u32)"
    then have "unat (word_of_nat n :: u32) = unat (1::u32)" by (rule arg_cong)
    with u show "n = 1" by simp
  next
    assume "n = 1"
    then show "word_of_nat n = (1::u32)" by simp
  qed
qed

lemma count_bits_one:
  assumes "r \<le> 32"
  shows "count_bits r n 0 = 1 \<longleftrightarrow> (\<exists>k<r. bit n k \<and> (\<forall>j<r. bit n j \<longrightarrow> j = k))"
proof -
  have "length (filter (bit n) [0..<r]) \<le> r"
    using length_filter_le [of "bit n" "[0..<r]"] by simp
  with assms have len: "length (filter (bit n) [0..<r]) \<le> 32" by simp
  show ?thesis
    by (simp only: count_bits_eq add_0 small_count [OF len] filter_upt_single)
qed

lemma one_bit_exp:
  assumes "\<exists>k<32. bit n k \<and> (\<forall>j<32. bit n j \<longrightarrow> j = k)"
  shows "\<exists>k<32. (n::u32) = 2 ^ k"
proof -
  from assms obtain k where "k < 32 \<and> bit n k \<and> (\<forall>j<32. bit n j \<longrightarrow> j = k)" ..
  then have k: "k < 32" "bit n k" and u: "\<And>j. j < 32 \<Longrightarrow> bit n j \<Longrightarrow> j = k" by simp_all
  have "n = 2 ^ k"
  proof (rule bit_word_eqI)
    fix j assume "j < LENGTH(32)"
    then have j: "j < 32" by simp
    show "bit n j = bit (2 ^ k :: u32) j"
    proof (cases "j = k")
      case True
      with k show ?thesis by (simp only: bit_exp_iff) simp
    next
      case False
      with u [OF j] have "\<not> bit n j" by auto
      with False show ?thesis by (simp only: bit_exp_iff) simp
    qed
  qed
  with k(1) show ?thesis by (intro exI conjI)
qed

lemma exp_one_bit:
  assumes "\<exists>k<32. (n::u32) = 2 ^ k"
  shows "\<exists>k<32. bit n k \<and> (\<forall>j<32. bit n j \<longrightarrow> j = k)"
proof -
  from assms obtain k where "k < 32 \<and> n = 2 ^ k" ..
  then have k: "k < 32" "n = 2 ^ k" by simp_all
  have b: "bit n j \<longleftrightarrow> j = k" for j
    using k by (simp only: bit_exp_iff) auto
  show ?thesis
    by (rule exI [of _ k]) (simp add: b k(1))
qed

lemma is_power_of_two_iff: "is_power_of_two n \<longleftrightarrow> (\<exists>k<32. n = 2 ^ k)"
proof -
  have "is_power_of_two n \<longleftrightarrow> (\<exists>k<32. bit n k \<and> (\<forall>j<32. bit n j \<longrightarrow> j = k))"
    unfolding is_power_of_two_def by (rule count_bits_one) simp
  also have "\<dots> \<longleftrightarrow> (\<exists>k<32. n = 2 ^ k)"
    using one_bit_exp [of n] exp_one_bit [of n] by (rule iffI)
  finally show ?thesis .
qed

lemma drop_bit_exp: "Suc k' < 32 \<Longrightarrow> drop_bit 1 (2 ^ Suc k' :: u32) = 2 ^ k'"
proof (rule bit_word_eqI)
  fix j assume a: "Suc k' < 32" "j < LENGTH(32)"
  have "bit (drop_bit 1 (2 ^ Suc k' :: u32)) j = bit (2 ^ Suc k' :: u32) (1 + j)"
    by (simp only: bit_drop_bit_eq o_apply)
  also have "\<dots> = (1 + j = Suc k')"
    using a by (simp only: bit_exp_iff) auto
  also have "\<dots> = bit (2 ^ k' :: u32) j"
    using a by (simp only: bit_exp_iff) auto
  finally show "bit (drop_bit 1 (2 ^ Suc k' :: u32)) j = bit (2 ^ k' :: u32) j" .
qed

lemma first_one_exp:
  "k < r \<Longrightarrow> k < 32 \<Longrightarrow> first_one r i (2 ^ k :: u32) = int (i + k)"
proof (induction r arbitrary: i k)
  case 0
  then show ?case by simp
next
  case (Suc r)
  show ?case
  proof (cases k)
    case 0
    then show ?thesis by simp
  next
    case (Suc k')
    have odd: "(2 ^ k :: u32) AND 1 \<noteq> 1"
      using Suc by (simp add: and_one_eq mod_2_eq_odd)
    have half: "drop_bit 1 (2 ^ k :: u32) = 2 ^ k'"
      using Suc Suc.prems drop_bit_exp [of k'] by simp
    have "first_one (Suc r) i (2 ^ k) = first_one r (Suc i) (2 ^ k')"
      by (simp only: first_one.simps odd half if_False)
    also have "\<dots> = int (Suc i + k')"
      using Suc.IH [of k' "Suc i"] Suc.prems Suc by simp
    finally show ?thesis using Suc by simp
  qed
qed

lemma log_two_exp:
  assumes "k < 32"
  shows "log_two (2 ^ k) = int k"
proof -
  from assms have "is_power_of_two (2 ^ k)"
    unfolding is_power_of_two_iff by (intro exI [of _ k] conjI refl)
  then have "log_two (2 ^ k) = first_one 32 0 (2 ^ k)"
    by (simp only: log_two_def if_False simp_thms)
  also have "\<dots> = int (0 + k)"
    using assms by (intro first_one_exp) simp_all
  finally show ?thesis by simp
qed

section \<open>The widths of a created cache\<close>

lemma exp_less32: "(2::nat) ^ k < 2 ^ 32 \<longleftrightarrow> k < 32"
  by (rule power_strict_increasing_iff) simp

lemma unat_exp32:
  assumes "k < 32"
  shows "unat (2 ^ k :: u32) = 2 ^ k"
proof -
  have "(2 ^ k :: u32) = word_of_nat (2 ^ k)" by simp
  then have "unat (2 ^ k :: u32) = 2 ^ k mod 2 ^ 32"
    by (simp only: unat_of_nat) simp
  moreover have "(2::nat) ^ k < 2 ^ 32"
    using assms by (simp only: exp_less32)
  ultimately show ?thesis by simp
qed


lemma unat_mult32: "unat (a * b :: u32) = (unat a * unat b) mod 2 ^ 32"
  by (simp add: unat_word_ariths)

lemma wrapped_product_ge:
  assumes "k < 32" and "a * 2 ^ k \<noteq> (0::u32)"
  shows "2 ^ k \<le> unat (a * 2 ^ k :: u32)"
proof -
  have u: "unat (a * 2 ^ k :: u32) = (unat a * 2 ^ k) mod 2 ^ 32"
    using assms(1) by (simp only: unat_mult32 unat_exp32)
  have "(2::nat) ^ k dvd 2 ^ 32" using assms(1) by (intro le_imp_power_dvd) simp
  moreover have "(2::nat) ^ k dvd unat a * 2 ^ k" by simp
  ultimately have "(2::nat) ^ k dvd (unat a * 2 ^ k) mod 2 ^ 32" by (rule dvd_mod [rotated])
  then have d: "(2::nat) ^ k dvd unat (a * 2 ^ k :: u32)" by (simp only: u)
  have "unat (a * 2 ^ k :: u32) \<noteq> 0" using assms(2) by (simp only: unat_0_iff) simp
  then have "0 < unat (a * 2 ^ k :: u32)" by simp
  with d show ?thesis by (rule dvd_imp_le)
qed

lemma widths_fit:
  assumes ko: "ko < 32" and ki: "ki < 32"
    and d: "a * 2 ^ ko \<noteq> (0::u32)"
    and n: "sz div (a * 2 ^ ko) = (2 ^ ki :: u32)"
  shows "ko + ki < 32"
proof -
  let ?d = "unat (a * 2 ^ ko :: u32)"
  have "unat sz div ?d = 2 ^ ki"
    using n ki by (simp only: unat_exp32 flip: unat_div)
  then have "2 ^ ki * ?d \<le> unat sz"
    by (metis div_times_less_eq_dividend)
  moreover have "2 ^ ki * 2 ^ ko \<le> 2 ^ ki * ?d"
    using wrapped_product_ge [OF ko d] by simp
  moreover have "unat sz < 2 ^ 32" using unsigned_less [of sz] by simp
  ultimately have "(2::nat) ^ ki * 2 ^ ko < 2 ^ 32" by linarith
  then have "(2::nat) ^ (ko + ki) < 2 ^ 32"
    by (simp only: power_add mult.commute)
  then show ?thesis by (simp only: exp_less32)
qed

lemma small_word_neq_minus_one:
  assumes "k < 32"
  shows "(word_of_nat k :: u32) \<noteq> - 1"
proof
  assume "(word_of_nat k :: u32) = - 1"
  then have "unat (word_of_nat k :: u32) = unat (- 1 :: u32)" by (rule arg_cong)
  moreover have "unat (word_of_nat k :: u32) = k" using assms by (simp add: unat_of_nat)
  ultimately show False
    using assms by (simp add: unsigned_minus_1_eq_mask mask_eq_exp_minus_1)
qed

lemma determine_address_widths_exp:
  assumes ko: "ko < 32" and ki: "ki < 32"
    and bs: "block_size c = 2 ^ ko" and ns: "number_of_sets c = 2 ^ ki"
  shows "determine_address_widths dm c =
           c\<lparr>addr_info :=
               \<lparr>address_width = word_of_nat (8 * sizeof_void_ptr dm),
                offset_width = word_of_nat ko,
                index_width = word_of_nat ki,
                tag_width = word_of_nat (8 * sizeof_void_ptr dm) - word_of_nat ko - word_of_nat ki\<rparr>\<rparr>"
proof -
  have lo: "(word_of_int (log_two (block_size c)) :: u32) = word_of_nat ko"
    by (simp only: bs log_two_exp [OF ko]) simp
  have li: "(word_of_int (log_two (number_of_sets c)) :: u32) = word_of_nat ki"
    by (simp only: ns log_two_exp [OF ki]) simp
  have w: "push_bit 3 (sizeof_void_ptr dm) = 8 * sizeof_void_ptr dm"
    by (simp add: push_bit_eq_mult)
  show ?thesis
    unfolding determine_address_widths_def lo li w Let_def
    using small_word_neq_minus_one [OF ko] small_word_neq_minus_one [OF ki]
    by simp
qed

lemma init_sets_Inr:
  "init_sets h a rs rb i r = Inr sets \<Longrightarrow>
   sets = map (\<lambda>i. map (new_block h i) [0..<a]) [i..<i + r]"
proof (induction r arbitrary: i sets)
  case 0
  then show ?case by simp
next
  case (Suc r)
  from Suc.prems obtain rest where rest: "init_sets h a rs rb (Suc i) r = Inr rest"
    and sets: "sets = map (new_block h i) [0..<a] # rest"
    by (auto split: if_splits sum.splits)
  from Suc.IH [OF rest] have "rest = map (\<lambda>i. map (new_block h i) [0..<a]) [Suc i..<Suc i + r]" .
  with sets show ?case by (simp add: upt_conv_Cons del: upt_Suc)
qed




lemma create_cache_struct_SomeE:
  assumes "create_cache_struct h dm sz a bs = Inr (Some c)"
  obtains ko ki where "ko + ki < 32" and "bs = 2 ^ ko" and "sz div (a * bs) = 2 ^ ki"
    and "a * bs \<noteq> 0"
    and "c = \<lparr>cache_size = sz, associativity = a, number_of_sets = 2 ^ ki, block_size = 2 ^ ko,
              addr_info = \<lparr>address_width = word_of_nat (8 * sizeof_void_ptr dm),
                offset_width = word_of_nat ko,
                index_width = word_of_nat ki,
                tag_width = word_of_nat (8 * sizeof_void_ptr dm) - word_of_nat ko - word_of_nat ki\<rparr>,
              blocks = map (\<lambda>i. map (new_block h i) [0..<unat a]) [0..<2 ^ ki],
              perf = zero_perf\<rparr>"
proof -
  from assms have pb: "is_power_of_two bs"
    by (auto simp: create_cache_struct_def split: if_splits)
  from assms pb have nz: "a * bs \<noteq> 0"
    by (auto simp: create_cache_struct_def split: if_splits)
  from assms pb nz have pn: "is_power_of_two (sz div (a * bs))"
    by (auto simp: create_cache_struct_def Let_def split: if_splits)
  from assms pb nz pn obtain sets where
    init: "init_sets h (unat a) (room dm (unat (sz div (a * bs))) (sizeof_void_ptr dm))
             (room dm (unat a) sizeof_cache_block) 0 (unat (sz div (a * bs))) = Inr sets"
    and c0: "c = determine_address_widths dm
               \<lparr>cache_size = sz, associativity = a, number_of_sets = sz div (a * bs),
                block_size = bs,
                addr_info = \<lparr>address_width = 0, offset_width = 0, index_width = 0, tag_width = 0\<rparr>,
                blocks = sets,
                perf = zero_perf\<rparr>"
    by (auto simp: create_cache_struct_def Let_def split: if_splits sum.splits)
  from init_sets_Inr [OF init]
  have "sets = map (\<lambda>i. map (new_block h i) [0..<unat a]) [0..<unat (sz div (a * bs))]"
    by simp
  with c0 have c: "c = determine_address_widths dm
               \<lparr>cache_size = sz, associativity = a, number_of_sets = sz div (a * bs),
                block_size = bs,
                addr_info = \<lparr>address_width = 0, offset_width = 0, index_width = 0, tag_width = 0\<rparr>,
                blocks = map (\<lambda>i. map (new_block h i) [0..<unat a]) [0..<unat (sz div (a * bs))],
                perf = zero_perf\<rparr>"
    by simp
  from pb obtain ko where "ko < 32 \<and> bs = 2 ^ ko" unfolding is_power_of_two_iff ..
  then have ko: "ko < 32" "bs = 2 ^ ko" by simp_all
  from pn obtain ki where "ki < 32 \<and> sz div (a * bs) = 2 ^ ki" unfolding is_power_of_two_iff ..
  then have ki: "ki < 32" "sz div (a * bs) = 2 ^ ki" by simp_all
  have ki2: "sz div (a * 2 ^ ko) = 2 ^ ki" using ki(2) ko(2) by simp
  have fit: "ko + ki < 32"
    using widths_fit [of ko ki a sz] ko ki nz by simp
  have "c = \<lparr>cache_size = sz, associativity = a, number_of_sets = 2 ^ ki, block_size = 2 ^ ko,
              addr_info = \<lparr>address_width = word_of_nat (8 * sizeof_void_ptr dm),
                offset_width = word_of_nat ko,
                index_width = word_of_nat ki,
                tag_width = word_of_nat (8 * sizeof_void_ptr dm) - word_of_nat ko - word_of_nat ki\<rparr>,
              blocks = map (\<lambda>i. map (new_block h i) [0..<unat a]) [0..<2 ^ ki],
              perf = zero_perf\<rparr>"
    unfolding c
    by (subst determine_address_widths_exp [of ko ki]) (simp_all add: ko ki ki2 unat_exp32)
  with fit ko(2) ki(2) nz show thesis by (rule that)
qed

lemma unat_small: "n < 2 ^ 32 \<Longrightarrow> unat (word_of_nat n :: u32) = n"
  by (simp add: unat_of_nat)

section \<open>C7: the address widths\<close>

text \<open>
  C7 (as amended). For every valid geometry, that is in every cache that
  \<^verbatim>\<open>create_cache_struct\<close> returns, the width calculator has produced \<open>offset_width\<close> =
  log2 of \<^verbatim>\<open>block_size\<close> and \<open>index_width\<close> = log2 of \<^verbatim>\<open>number_of_sets\<close> (the block size
  given, and the number of sets the constructor has computed from the geometry), and the
  three widths add up to \<open>address_width\<close> exactly, with no wrap-around. \<open>address_width\<close>
  is \<^verbatim>\<open>sizeof(void*) << 3\<close>: 32 on ILP32 and 64 on LP64, not the constant 32.
\<close>

theorem address_widths_partition:
  assumes "create_cache_struct h dm sz a bs = Inr (Some c)"
  shows "block_size c = bs \<and> number_of_sets c = sz div (a * bs)
       \<and> unat (block_size c) = 2 ^ unat (offset_width (addr_info c))
       \<and> unat (number_of_sets c) = 2 ^ unat (index_width (addr_info c))
       \<and> unat (offset_width (addr_info c)) + unat (index_width (addr_info c))
           + unat (tag_width (addr_info c))
           = unat (address_width (addr_info c))
       \<and> unat (address_width (addr_info c)) = 8 * sizeof_void_ptr dm"
proof -
  from assms obtain ko ki where k: "ko + ki < 32"
    and b: "bs = 2 ^ ko" and q: "sz div (a * bs) = 2 ^ ki"
    and c: "c = \<lparr>cache_size = sz, associativity = a, number_of_sets = 2 ^ ki, block_size = 2 ^ ko,
              addr_info = \<lparr>address_width = word_of_nat (8 * sizeof_void_ptr dm),
                offset_width = word_of_nat ko,
                index_width = word_of_nat ki,
                tag_width = word_of_nat (8 * sizeof_void_ptr dm) - word_of_nat ko - word_of_nat ki\<rparr>,
              blocks = map (\<lambda>i. map (new_block h i) [0..<unat a]) [0..<2 ^ ki],
              perf = zero_perf\<rparr>"
    by (rule create_cache_struct_SomeE)
  have dm: "8 * sizeof_void_ptr dm = 32 \<or> 8 * sizeof_void_ptr dm = 64" by (cases dm) simp_all
  have wide: "32 \<le> 8 * sizeof_void_ptr dm" using dm by auto
  have t: "(word_of_nat (8 * sizeof_void_ptr dm) - word_of_nat ko - word_of_nat ki :: u32)
      = word_of_nat (8 * sizeof_void_ptr dm - ko - ki)"
    using k wide by (simp add: of_nat_diff)
  have ko: "unat (word_of_nat ko :: u32) = ko" using k by (intro unat_small) simp
  have ki: "unat (word_of_nat ki :: u32) = ki" using k by (intro unat_small) simp
  have aw: "unat (word_of_nat (8 * sizeof_void_ptr dm) :: u32) = 8 * sizeof_void_ptr dm"
    using dm by (intro unat_small) auto
  have tw: "unat (word_of_nat (8 * sizeof_void_ptr dm - ko - ki) :: u32)
      = 8 * sizeof_void_ptr dm - ko - ki"
    using dm by (intro unat_small) auto
  have bs: "unat (2 ^ ko :: u32) = 2 ^ ko" using k by (intro unat_exp32) simp
  have ns: "unat (2 ^ ki :: u32) = 2 ^ ki" using k by (intro unat_exp32) simp
  have sum: "ko + ki + (8 * sizeof_void_ptr dm - ko - ki) = 8 * sizeof_void_ptr dm"
    using wide k by auto
  have "block_size c = 2 ^ ko" and "number_of_sets c = 2 ^ ki"
    unfolding c by (simp_all only: cache.simps)
  with b q have geo: "block_size c = bs \<and> number_of_sets c = sz div (a * bs)"
    by simp
  have widths: "unat (block_size c) = 2 ^ unat (offset_width (addr_info c))
       \<and> unat (number_of_sets c) = 2 ^ unat (index_width (addr_info c))
       \<and> unat (offset_width (addr_info c)) + unat (index_width (addr_info c))
           + unat (tag_width (addr_info c))
           = unat (address_width (addr_info c))
       \<and> unat (address_width (addr_info c)) = 8 * sizeof_void_ptr dm"
    unfolding c cache.simps address_info.simps t
    by (simp only: ko ki aw tw bs ns sum simp_thms)
  from geo widths show ?thesis by (simp only: simp_thms)
qed

theorem address_widths_partition_witness:
  "create_cache_struct heap0 ILP32 8 1 2 = Inr (Some quad_cache)
   \<and> addr_info quad_cache
       = \<lparr>address_width = 32, offset_width = 1, index_width = 2, tag_width = 29\<rparr>
   \<and> block_size quad_cache = 2 \<and> number_of_sets quad_cache = 8 div (1 * 2)
   \<and> unat (block_size quad_cache) = 2 ^ unat (offset_width (addr_info quad_cache))
   \<and> unat (number_of_sets quad_cache) = 2 ^ unat (index_width (addr_info quad_cache))
   \<and> unat (offset_width (addr_info quad_cache)) + unat (index_width (addr_info quad_cache))
       + unat (tag_width (addr_info quad_cache))
       = unat (address_width (addr_info quad_cache))
   \<and> unat (address_width (addr_info quad_cache)) = 8 * sizeof_void_ptr ILP32"
proof -
  have h: "create_cache_struct heap0 ILP32 8 1 2 = Inr (Some quad_cache)" by code_simp
  have w: "addr_info quad_cache
       = \<lparr>address_width = 32, offset_width = 1, index_width = 2, tag_width = 29\<rparr>"
    by code_simp
  from address_widths_partition [OF h] h w show ?thesis by (intro conjI) simp_all
qed

text \<open>On LP64 the geometry 1024, 1, 32 gets \<open>address_width\<close> 64 and a tag of 54 bits.\<close>

theorem address_width_64_counterexample:
  "widths_of (create_cache_struct heap0 LP64 1024 1 32)
     = Some \<lparr>address_width = 64, offset_width = 5, index_width = 5, tag_width = 54\<rparr>"
  by code_simp

section \<open>C2: which geometries are accepted\<close>


text \<open>On LP64 no allocation size wraps, whatever the geometry.\<close>

lemma sizes_fit_LP64: "sizes_fit LP64 (unat n) (unat a)" for n a :: u32
proof -
  have "unat n < 2 ^ 32" "unat a < 2 ^ 32"
    using unsigned_less [of n, where 'a = nat] unsigned_less [of a, where 'a = nat] by simp_all
  then show ?thesis by (simp add: sizes_fit_def sizeof_cache_block_def)
qed










section \<open>The loops of reference processing\<close>

lemma index_in_range:
  assumes "wf_cache c"
  shows "unat (get_index_from_address a c) < length (blocks c)"
proof -
  let ?n = "unat (index_width (addr_info c))"
  from assms have n: "?n < 32" and len: "length (blocks c) = unat (2 ^ ?n :: u32)"
    by (simp_all add: wf_cache_def)
  have "get_index_from_address a c = drop_bit (unat (offset_width (addr_info c))) a AND mask ?n"
    by (simp add: get_index_from_address_def mask_eq_exp_minus_1)
  moreover have "drop_bit (unat (offset_width (addr_info c))) a AND mask ?n < 2 ^ ?n"
    using n by (intro and_mask_less_size) (simp add: word_size)
  ultimately have "get_index_from_address a c < 2 ^ ?n" by simp
  then show ?thesis unfolding len by (simp only: word_less_nat_alt)
qed

lemma is_miss_loop_eq:
  "i + r \<le> length cb \<Longrightarrow>
   is_miss_loop tg cb i r = Inr (\<not> (\<exists>k. i \<le> k \<and> k < i + r \<and> tag (cb ! k) = tg \<and> valid (cb ! k)))"
proof (induction r arbitrary: i)
  case 0
  show ?case by simp
next
  case (Suc r)
  have split: "(\<exists>k. i \<le> k \<and> k < i + Suc r \<and> tag (cb ! k) = tg \<and> valid (cb ! k))
      \<longleftrightarrow> (tag (cb ! i) = tg \<and> valid (cb ! i))
          \<or> (\<exists>k. Suc i \<le> k \<and> k < Suc i + r \<and> tag (cb ! k) = tg \<and> valid (cb ! k))"
    by (metis Suc_leD Suc_le_eq add_Suc add_Suc_right le_eq_less_or_eq less_add_Suc1)
  from Suc.prems have "\<not> length cb \<le> i" "Suc i + r \<le> length cb" by simp_all
  then show ?case
    unfolding split by (simp add: Suc.IH Let_def)
qed


lemma is_miss_ok:
  assumes "wf_cache c" and "unat index < length (blocks c)"
  shows "is_miss tg index c
       = Inr (\<not> (\<exists>k<unat (associativity c).
                   tag (blocks c ! unat index ! k) = tg \<and> valid (blocks c ! unat index ! k)))"
proof -
  from assms have "length (blocks c ! unat index) = unat (associativity c)"
    by (simp add: wf_cache_def list_all_length)
  then have "0 + unat (associativity c) \<le> length (blocks c ! unat index)" by simp
  from is_miss_loop_eq [OF this, of tg] assms(2) show ?thesis
    by (simp add: is_miss_def)
qed

lemma lru_find_ok:
  "i + r \<le> length cb \<Longrightarrow> \<exists>res. lru_find tg cb i r b = Inr res"
proof (induction r arbitrary: i b)
  case 0
  show ?case by simp
next
  case (Suc r)
  from Suc.prems have "\<not> length cb \<le> i" "Suc i + r \<le> length cb" by simp_all
  then show ?case using Suc.IH [of "Suc i"] by simp
qed

lemma lru_find_nomatch:
  "i + r \<le> length cb \<Longrightarrow>
   (\<And>j. i \<le> j \<Longrightarrow> j < i + r \<Longrightarrow> \<not> (valid (cb ! j) \<and> tag (cb ! j) = tg)) \<Longrightarrow>
   lru_find tg cb i r b = Inr (Some b)"
proof (induction r arbitrary: i)
  case 0
  show ?case by simp
next
  case (Suc r)
  from Suc.prems(1) have len: "\<not> length cb \<le> i" "Suc i + r \<le> length cb" by simp_all
  have here: "\<not> (valid (cb ! i) \<and> tag (cb ! i) = tg)" using Suc.prems(2) [of i] by simp
  have "lru_find tg cb (Suc i) r b = Inr (Some b)"
    using len(2) Suc.prems(2) by (intro Suc.IH) simp_all
  with len here show ?case by auto
qed

lemma lru_find_match:
  "i + r \<le> length cb \<Longrightarrow> i \<le> k \<Longrightarrow> k < i + r \<Longrightarrow>
   valid (cb ! k) \<Longrightarrow> tag (cb ! k) = tg \<Longrightarrow>
   (\<And>j. i \<le> j \<Longrightarrow> j < i + r \<Longrightarrow> j \<noteq> k \<Longrightarrow> \<not> (valid (cb ! j) \<and> tag (cb ! j) = tg)) \<Longrightarrow>
   lru_find tg cb i r b = Inr (if lru_value (cb ! k) = 0 then None else Some k)"
proof (induction r arbitrary: i b)
  case 0
  then show ?case by simp
next
  case (Suc r)
  from Suc.prems(1) have len: "\<not> length cb \<le> i" "Suc i + r \<le> length cb" by simp_all
  show ?case
  proof (cases "i = k")
    case True
    have "lru_find tg cb (Suc i) r i = Inr (Some i)"
      using len(2) Suc.prems(6) True by (intro lru_find_nomatch) simp_all
    with len True Suc.prems(4,5) show ?thesis by simp
  next
    case False
    have here: "\<not> (valid (cb ! i) \<and> tag (cb ! i) = tg)"
      using Suc.prems(6) [of i] False by simp
    have "lru_find tg cb (Suc i) r b = Inr (if lru_value (cb ! k) = 0 then None else Some k)"
      using len(2) Suc.prems False by (intro Suc.IH) simp_all
    with len here show ?thesis by auto
  qed
qed

lemma lru_age_eq:
  "i + r \<le> length cb \<Longrightarrow>
   lru_age cb i r b =
     Inr (map (\<lambda>k. if i \<le> k \<and> k < i + r
                    then (cb ! k)\<lparr>lru_value := (if k = b then 0 else lru_value (cb ! k) + 1)\<rparr>
                    else cb ! k) [0..<length cb])"
proof (induction r arbitrary: cb i)
  case 0
  have "map (\<lambda>k. if i \<le> k \<and> k < i + 0
                    then (cb ! k)\<lparr>lru_value := (if k = b then 0 else lru_value (cb ! k) + 1)\<rparr>
                    else cb ! k) [0..<length cb] = map ((!) cb) [0..<length cb]"
    by (intro map_cong refl) auto
  then show ?case by (simp only: map_nth lru_age.simps)
next
  case (Suc r)
  let ?cb = "cb[i := (cb ! i)\<lparr>lru_value := (if i = b then 0 else lru_value (cb ! i) + 1)\<rparr>]"
  from Suc.prems have len: "\<not> length cb \<le> i" "Suc i + r \<le> length ?cb" by simp_all
  have "lru_age cb i (Suc r) b = lru_age ?cb (Suc i) r b"
    using len(1) by simp
  also have "\<dots> = Inr (map (\<lambda>k. if Suc i \<le> k \<and> k < Suc i + r
                    then (?cb ! k)\<lparr>lru_value := (if k = b then 0 else lru_value (?cb ! k) + 1)\<rparr>
                    else ?cb ! k) [0..<length ?cb])"
    by (rule Suc.IH [OF len(2)])
  also have "\<dots> = Inr (map (\<lambda>k. if i \<le> k \<and> k < i + Suc r
                    then (cb ! k)\<lparr>lru_value := (if k = b then 0 else lru_value (cb ! k) + 1)\<rparr>
                    else cb ! k) [0..<length cb])"
  proof -
    have "(if Suc i \<le> k \<and> k < Suc i + r
                    then (?cb ! k)\<lparr>lru_value := (if k = b then 0 else lru_value (?cb ! k) + 1)\<rparr>
                    else ?cb ! k)
        = (if i \<le> k \<and> k < i + Suc r
                    then (cb ! k)\<lparr>lru_value := (if k = b then 0 else lru_value (cb ! k) + 1)\<rparr>
                    else cb ! k)" if "k < length cb" for k
    proof (cases "k = i")
      case True
      with that show ?thesis by simp
    next
      case False
      then have "?cb ! k = cb ! k" by simp
      moreover have "(Suc i \<le> k \<and> k < Suc i + r) = (i \<le> k \<and> k < i + Suc r)"
        using False by auto
      ultimately show ?thesis by (simp only:)
    qed
    then show ?thesis by (simp only: length_list_update sum.inject) (rule map_cong, simp_all)
  qed
  finally show ?case .
qed

lemma lru_age_contents:
  assumes "lru_age cb i r b = Inr cb'"
  shows "length cb' = length cb \<and> map block_contents cb' = map block_contents cb"
  using assms
proof (induction r arbitrary: cb i)
  case 0
  then show ?case by simp
next
  case (Suc r)
  let ?cb = "cb[i := (cb ! i)\<lparr>lru_value := (if i = b then 0 else lru_value (cb ! i) + 1)\<rparr>]"
  from Suc.prems have len: "i < length cb" and rest: "lru_age ?cb (Suc i) r b = Inr cb'"
    by (simp_all split: if_splits)
  from Suc.IH [OF rest]
  have "length cb' = length ?cb" and m: "map block_contents cb' = map block_contents ?cb"
    by simp_all
  moreover have "map block_contents ?cb = map block_contents cb"
    using len by (simp add: map_update block_contents_def list_update_same_conv)
  ultimately show ?case by simp
qed

lemma handle_miss_InrD:
  assumes "handle_miss tg index w c = Inr c'"
  shows "associativity c = 1 \<and> unat index < length (blocks c) \<and> blocks c ! unat index \<noteq> []
       \<and> c' = c\<lparr>blocks := (blocks c)[unat index :=
               (blocks c ! unat index)[0 :=
                 (blocks c ! unat index ! 0)\<lparr>valid := True, dirty := w, tag := tg\<rparr>]]\<rparr>"
  using assms by (simp add: handle_miss_def Let_def split: if_splits)

lemma update_lru_info_InrE:
  assumes "update_lru_info tg index c = Inr c'"
  obtains s where "c' = c\<lparr>blocks := (blocks c)[unat index := s]\<rparr>"
    and "length s = length (blocks c ! unat index)"
    and "map block_contents s = map block_contents (blocks c ! unat index)"
proof (cases "associativity c = 0")
  case True
  with assms have "c' = c\<lparr>blocks := (blocks c)[unat index := blocks c ! unat index]\<rparr>"
    by (simp add: update_lru_info_def)
  then show thesis by (rule that) simp_all
next
  case False
  with assms have len: "unat index < length (blocks c)"
    by (simp add: update_lru_info_def split: if_splits)
  let ?cb = "blocks c ! unat index"
  from assms False len obtain res where f: "lru_find tg ?cb 0 (unat (associativity c)) 0 = Inr res"
    by (auto simp: update_lru_info_def Let_def split: sum.splits)
  show thesis
  proof (cases res)
    case None
    with assms False len f have "c' = c\<lparr>blocks := (blocks c)[unat index := ?cb]\<rparr>"
      by (simp add: update_lru_info_def)
    then show thesis by (rule that) simp_all
  next
    case (Some b)
    with assms False len f obtain cb' where a: "lru_age ?cb 0 (unat (associativity c)) b = Inr cb'"
      and c': "c' = c\<lparr>blocks := (blocks c)[unat index := cb']\<rparr>"
      by (auto simp: update_lru_info_def split: sum.splits)
    from lru_age_contents [OF a] c' show thesis by (intro that [of cb']) simp_all
  qed
qed

lemma do_reference_InrE:
  assumes "do_reference m c = Inr c'"
  obtains s p where
    "c' = c\<lparr>blocks := (blocks c)[unat (get_index_from_address (address m) c) := s], perf := p\<rparr>"
    and "length s = length (blocks c ! unat (get_index_from_address (address m) c))"
proof -
  let ?tg = "get_tag_from_address (address m) c"
  let ?i = "get_index_from_address (address m) c"
  from assms obtain miss where miss: "is_miss ?tg ?i c = Inr miss"
    by (auto simp: do_reference_def Let_def split: sum.splits)
  show thesis
  proof (cases miss)
    case False
    with assms miss obtain c3 where u: "update_lru_info ?tg ?i c = Inr c3"
      and c': "c' = c3\<lparr>perf := count_reference (ref_type m) (perf c3)\<rparr>"
      by (auto simp: do_reference_def Let_def split: sum.splits)
    from u obtain s where "c3 = c\<lparr>blocks := (blocks c)[unat ?i := s]\<rparr>"
      and "length s = length (blocks c ! unat ?i)"
      by (rule update_lru_info_InrE)
    with c' show thesis
      by (intro that [where s = s and p = "count_reference (ref_type m) (perf c)"]) simp_all
  next
    case True
    with assms miss obtain c1 c3 where h: "handle_miss ?tg ?i (ref_type m = DATA_WRITE) c = Inr c1"
      and u: "update_lru_info ?tg ?i (c1\<lparr>perf := count_miss (ref_type m) (perf c1)\<rparr>) = Inr c3"
      and c': "c' = c3\<lparr>perf := count_reference (ref_type m) (perf c3)\<rparr>"
      by (auto simp: do_reference_def Let_def split: sum.splits)
    let ?c2 = "c1\<lparr>perf := count_miss (ref_type m) (perf c1)\<rparr>"
    from handle_miss_InrD [OF h] obtain s1 where c1: "c1 = c\<lparr>blocks := (blocks c)[unat ?i := s1]\<rparr>"
      and l1: "length s1 = length (blocks c ! unat ?i)" and in_range: "unat ?i < length (blocks c)"
      by simp
    from u obtain s where c3: "c3 = ?c2\<lparr>blocks := (blocks ?c2)[unat ?i := s]\<rparr>"
      and l3: "length s = length (blocks ?c2 ! unat ?i)"
      by (rule update_lru_info_InrE)
    from c1 c3 c' have "c' = c\<lparr>blocks := (blocks c)[unat ?i := s],
        perf := count_reference (ref_type m) (count_miss (ref_type m) (perf c))\<rparr>"
      by simp
    moreover from l1 l3 c1 in_range have "length s = length (blocks c ! unat ?i)" by simp
    ultimately show thesis by (rule that)
  qed
qed

lemma do_reference_perf:
  assumes "do_reference m c = Inr c'"
  shows "perf c' = count_reference (ref_type m)
           (if is_miss (get_tag_from_address (address m) c)
                 (get_index_from_address (address m) c) c = Inr True
            then count_miss (ref_type m) (perf c) else perf c)"
proof -
  let ?tg = "get_tag_from_address (address m) c"
  let ?i = "get_index_from_address (address m) c"
  from assms obtain miss where miss: "is_miss ?tg ?i c = Inr miss"
    by (auto simp: do_reference_def Let_def split: sum.splits)
  show ?thesis
  proof (cases miss)
    case False
    with assms miss obtain c3 where u: "update_lru_info ?tg ?i c = Inr c3"
      and c': "c' = c3\<lparr>perf := count_reference (ref_type m) (perf c3)\<rparr>"
      by (auto simp: do_reference_def Let_def split: sum.splits)
    from u obtain s where "c3 = c\<lparr>blocks := (blocks c)[unat ?i := s]\<rparr>"
      by (rule update_lru_info_InrE)
    with c' miss False show ?thesis by simp
  next
    case True
    with assms miss obtain c1 c3 where h: "handle_miss ?tg ?i (ref_type m = DATA_WRITE) c = Inr c1"
      and u: "update_lru_info ?tg ?i (c1\<lparr>perf := count_miss (ref_type m) (perf c1)\<rparr>) = Inr c3"
      and c': "c' = c3\<lparr>perf := count_reference (ref_type m) (perf c3)\<rparr>"
      by (auto simp: do_reference_def Let_def split: sum.splits)
    let ?c2 = "c1\<lparr>perf := count_miss (ref_type m) (perf c1)\<rparr>"
    from handle_miss_InrD [OF h] have p1: "perf c1 = perf c" by simp
    from u obtain s where c3: "c3 = ?c2\<lparr>blocks := (blocks ?c2)[unat ?i := s]\<rparr>"
      by (rule update_lru_info_InrE)
    with c' p1 miss True show ?thesis by simp
  qed
qed

section \<open>Well-formedness is kept\<close>

lemma create_cache_struct_wf:
  assumes "create_cache_struct h dm sz a bs = Inr (Some c)"
  shows "wf_cache c" and "associativity c = a" and "perf c = zero_perf"
    and "\<And>s b. s \<in> set (blocks c) \<Longrightarrow> b \<in> set s \<Longrightarrow> \<not> valid b"
proof -
  from assms obtain ko ki where k: "ko + ki < 32"
    and c: "c = \<lparr>cache_size = sz, associativity = a, number_of_sets = 2 ^ ki, block_size = 2 ^ ko,
              addr_info = \<lparr>address_width = word_of_nat (8 * sizeof_void_ptr dm),
                offset_width = word_of_nat ko,
                index_width = word_of_nat ki,
                tag_width = word_of_nat (8 * sizeof_void_ptr dm) - word_of_nat ko - word_of_nat ki\<rparr>,
              blocks = map (\<lambda>i. map (new_block h i) [0..<unat a]) [0..<2 ^ ki],
              perf = zero_perf\<rparr>"
    by (rule create_cache_struct_SomeE)
  from k have ki: "unat (word_of_nat ki :: u32) = ki" by (intro unat_small) simp
  from k have "ki < 32" by simp
  then have "unat (2 ^ ki :: u32) = 2 ^ ki" by (rule unat_exp32)
  with ki k show "wf_cache c"
    by (simp add: wf_cache_def c list_all_iff)
  show "associativity c = a" and "perf c = zero_perf" by (simp_all add: c)
  show "\<not> valid b" if "s \<in> set (blocks c)" "b \<in> set s" for s b
    using that by (auto simp: c new_block_def)
qed

lemma update_lru_info_ok:
  assumes "wf_cache c" and "unat index < length (blocks c)"
  shows "\<exists>c'. update_lru_info tg index c = Inr c'"
proof -
  let ?cb = "blocks c ! unat index"
  let ?n = "unat (associativity c)"
  from assms have len: "0 + ?n \<le> length ?cb"
    by (simp add: wf_cache_def list_all_length)
  from lru_find_ok [OF len] obtain res where f: "lru_find tg ?cb 0 ?n 0 = Inr res" by blast
  show ?thesis
  proof (cases res)
    case None
    with f assms(2) show ?thesis by (simp add: update_lru_info_def Let_def)
  next
    case (Some b)
    with f assms(2) lru_age_eq [OF len, of b] show ?thesis
      by (simp add: update_lru_info_def Let_def)
  qed
qed

lemma do_reference_wf:
  assumes "wf_cache c" and "do_reference m c = Inr c'"
  shows "wf_cache c'"
proof -
  let ?i = "unat (get_index_from_address (address m) c)"
  from assms(2) obtain s p where c': "c' = c\<lparr>blocks := (blocks c)[?i := s], perf := p\<rparr>"
    and len: "length s = length (blocks c ! ?i)"
    by (rule do_reference_InrE)
  have "length ((blocks c)[?i := s] ! j) = length (blocks c ! j)" if "j < length (blocks c)" for j
    using that len by (cases "j = ?i") simp_all
  with assms(1) show ?thesis
    by (simp add: wf_cache_def c' list_all_length)
qed

lemma do_references_wf:
  "wf_cache c \<Longrightarrow> do_references ms c = Inr c' \<Longrightarrow> wf_cache c'"
proof (induction ms arbitrary: c)
  case Nil
  then show ?case by simp
next
  case (Cons m ms)
  from Cons.prems(2) obtain c1 where 1: "do_reference m c = Inr c1" and 2: "do_references ms c1 = Inr c'"
    by (auto split: sum.splits)
  from do_reference_wf [OF Cons.prems(1) 1] 2 show ?case by (rule Cons.IH)
qed

lemma map_contents_update:
  assumes "map block_contents s = map block_contents (bl ! i)"
  shows "map (map block_contents) (bl[i := s]) = map (map block_contents) bl"
proof -
  have "map (map block_contents) (bl[i := s]) = (map (map block_contents) bl)[i := map block_contents s]"
    by (rule map_update)
  also have "\<dots> = map (map block_contents) bl"
    unfolding assms by (cases "i < length bl") (simp_all add: list_update_same_conv list_update_beyond)
  finally show ?thesis .
qed

section \<open>C9: a hit changes no block contents\<close>

text \<open>
  C9. When the lookup of a reference in a well-formed cache hits (\<^verbatim>\<open>is_miss\<close> returns
  false), \<^verbatim>\<open>do_reference\<close> returns, and the valid flag, the dirty flag and the tag of every
  block are what they were: only recency values and counters change. So a data write
  that hits does not set the dirty flag, which is assigned in \<^verbatim>\<open>handle_miss\<close> only.
\<close>

theorem hit_keeps_block_contents:
  assumes "wf_cache c"
    and "is_miss (get_tag_from_address (address m) c) (get_index_from_address (address m) c) c
           = Inr False"
  shows "\<exists>c'. do_reference m c = Inr c'
           \<and> map (map block_contents) (blocks c') = map (map block_contents) (blocks c)"
proof -
  let ?tg = "get_tag_from_address (address m) c"
  let ?i = "get_index_from_address (address m) c"
  from update_lru_info_ok [OF assms(1) index_in_range [OF assms(1)]]
  obtain c3 where u: "update_lru_info ?tg ?i c = Inr c3" by blast
  from u obtain s where c3: "c3 = c\<lparr>blocks := (blocks c)[unat ?i := s]\<rparr>"
    and s: "map block_contents s = map block_contents (blocks c ! unat ?i)"
    by (rule update_lru_info_InrE)
  from assms(2) u have "do_reference m c = Inr (c3\<lparr>perf := count_reference (ref_type m) (perf c3)\<rparr>)"
    by (simp add: do_reference_def)
  moreover have "map (map block_contents) (blocks (c3\<lparr>perf := count_reference (ref_type m) (perf c3)\<rparr>))
      = map (map block_contents) (blocks c)"
    using map_contents_update [OF s] by (simp add: c3)
  ultimately show ?thesis by blast
qed

theorem hit_keeps_block_contents_witness:
  "do_reference (fetch 0) tiny_cache = Inr warm_cache
   \<and> wf_cache warm_cache
   \<and> is_miss (get_tag_from_address (address (store 0)) warm_cache)
        (get_index_from_address (address (store 0)) warm_cache) warm_cache = Inr False
   \<and> (\<exists>c'. do_reference (store 0) warm_cache = Inr c'
          \<and> map (map block_contents) (blocks c') = [[(True, False, 0)]])"
proof -
  have r: "do_reference (fetch 0) tiny_cache = Inr warm_cache" by code_simp
  have w: "wf_cache warm_cache" by code_simp
  have h: "is_miss (get_tag_from_address (address (store 0)) warm_cache)
        (get_index_from_address (address (store 0)) warm_cache) warm_cache = Inr False"
    by code_simp
  have b: "map (map block_contents) (blocks warm_cache) = [[(True, False, 0)]]" by code_simp
  from hit_keeps_block_contents [OF w h] r w h show ?thesis by (simp only: b simp_thms)
qed

section \<open>C10: what a reference can change\<close>

text \<open>
  C10. A call of \<^verbatim>\<open>do_reference\<close> that returns leaves the size, the associativity, the
  block size, the number of sets and the address widths as they were, keeps the number
  of sets of the array, and changes no set other than the one the address indexes: only
  that set and the counters can differ.
\<close>

theorem do_reference_frame:
  assumes "do_reference m c = Inr c'"
  shows "cache_size c' = cache_size c \<and> associativity c' = associativity c
       \<and> block_size c' = block_size c \<and> number_of_sets c' = number_of_sets c
       \<and> addr_info c' = addr_info c
       \<and> length (blocks c') = length (blocks c)
       \<and> (\<forall>j. j \<noteq> unat (get_index_from_address (address m) c) \<longrightarrow> blocks c' ! j = blocks c ! j)"
proof -
  from assms obtain s p where
    "c' = c\<lparr>blocks := (blocks c)[unat (get_index_from_address (address m) c) := s], perf := p\<rparr>"
    by (rule do_reference_InrE)
  then show ?thesis by simp
qed

theorem do_reference_frame_witness:
  "create_cache_struct heap0 ILP32 2 1 1 = Inr (Some two_set_cache)
   \<and> do_reference (store 7) two_set_cache
       = Inr (two_set_cache
               \<lparr>blocks := [[\<lparr>valid = False, dirty = False, lru_value = 7, tag = 0\<rparr>],
                           [\<lparr>valid = True, dirty = True, lru_value = 0, tag = 3\<rparr>]],
                perf := zero_perf\<lparr>data_write_reference_count := 1, data_write_miss_count := 1\<rparr>\<rparr>)
   \<and> unat (get_index_from_address (address (store 7)) two_set_cache) = 1
   \<and> [[\<lparr>valid = False, dirty = False, lru_value = 7, tag = 0\<rparr>],
        [\<lparr>valid = True, dirty = True, lru_value = 0, tag = 3\<rparr>]] ! 0 = blocks two_set_cache ! 0"
proof -
  have c: "create_cache_struct heap0 ILP32 2 1 1 = Inr (Some two_set_cache)" by code_simp
  have r: "do_reference (store 7) two_set_cache
       = Inr (two_set_cache
               \<lparr>blocks := [[\<lparr>valid = False, dirty = False, lru_value = 7, tag = 0\<rparr>],
                           [\<lparr>valid = True, dirty = True, lru_value = 0, tag = 3\<rparr>]],
                perf := zero_perf\<lparr>data_write_reference_count := 1, data_write_miss_count := 1\<rparr>\<rparr>)"
    by code_simp
  have i: "unat (get_index_from_address (address (store 7)) two_set_cache) = 1" by code_simp
  from do_reference_frame [OF r]
  have "\<forall>j. j \<noteq> unat (get_index_from_address (address (store 7)) two_set_cache) \<longrightarrow>
          [[\<lparr>valid = False, dirty = False, lru_value = 7, tag = 0\<rparr>],
           [\<lparr>valid = True, dirty = True, lru_value = 0, tag = 3\<rparr>]] ! j = blocks two_set_cache ! j"
    by simp
  then have "[[\<lparr>valid = False, dirty = False, lru_value = 7, tag = 0\<rparr>],
        [\<lparr>valid = True, dirty = True, lru_value = 0, tag = 3\<rparr>]] ! 0 = blocks two_set_cache ! 0"
    unfolding i by (elim allE [of _ 0]) simp
  with c r i show ?thesis by (intro conjI)
qed

section \<open>Direct-mapped caches\<close>

lemma singleton_set:
  assumes "wf_cache c" and "associativity c = 1" and "i < length (blocks c)"
  shows "blocks c ! i = [blocks c ! i ! 0]"
proof -
  from assms have "length (blocks c ! i) = 1"
    by (simp add: wf_cache_def list_all_length)
  then show ?thesis by (cases "blocks c ! i") simp_all
qed

lemma update_lru_info_single:
  assumes "unat index < length (blocks c)" and "associativity c = 1"
    and "blocks c ! unat index = [b]" and "valid b" and "tag b = tg"
  shows "update_lru_info tg index c
       = Inr (c\<lparr>blocks := (blocks c)[unat index := [b\<lparr>lru_value := 0\<rparr>]]\<rparr>)"
proof (cases "lru_value b = 0")
  case True
  then have "b\<lparr>lru_value := 0\<rparr> = b" by (cases b) simp
  then have "(blocks c)[unat index := [b\<lparr>lru_value := 0\<rparr>]] = blocks c"
    using assms(3) by (simp add: list_update_same_conv assms(1))
  then have "c\<lparr>blocks := (blocks c)[unat index := [b\<lparr>lru_value := 0\<rparr>]]\<rparr> = c" by simp
  moreover have "update_lru_info tg index c = Inr c"
    using assms True by (simp add: update_lru_info_def)
  ultimately show ?thesis by simp
next
  case False
  with assms show ?thesis by (simp add: update_lru_info_def)
qed

lemma is_miss_single:
  assumes "unat index < length (blocks c)" and "associativity c = 1"
    and "blocks c ! unat index = [b]"
  shows "is_miss tg index c = Inr (\<not> (tag b = tg \<and> valid b))"
  using assms by (simp add: is_miss_def)

text \<open>A direct-mapped cache: what one reference does.\<close>

lemma do_reference_direct_mapped:
  assumes wf: "wf_cache c" and one: "associativity c = 1"
  shows "do_reference m c =
     (let tg = get_tag_from_address (address m) c;
          i = unat (get_index_from_address (address m) c);
          b = blocks c ! i ! 0
      in if tag b = tg \<and> valid b
         then Inr (c\<lparr>blocks := (blocks c)[i := [b\<lparr>lru_value := 0\<rparr>]],
                     perf := count_reference (ref_type m) (perf c)\<rparr>)
         else Inr (c\<lparr>blocks := (blocks c)[i :=
                       [b\<lparr>valid := True, dirty := (ref_type m = DATA_WRITE), tag := tg,
                          lru_value := 0\<rparr>]],
                     perf := count_reference (ref_type m) (count_miss (ref_type m) (perf c))\<rparr>))"
proof -
  let ?tg = "get_tag_from_address (address m) c"
  let ?ix = "get_index_from_address (address m) c"
  let ?b = "blocks c ! unat ?ix ! 0"
  have r: "unat ?ix < length (blocks c)" using wf by (rule index_in_range)
  have s: "blocks c ! unat ?ix = [?b]" using wf one r by (rule singleton_set)
  have miss: "is_miss ?tg ?ix c = Inr (\<not> (tag ?b = ?tg \<and> valid ?b))"
    using r one s by (rule is_miss_single)
  show ?thesis
  proof (cases "tag ?b = ?tg \<and> valid ?b")
    case True
    then have "update_lru_info ?tg ?ix c
        = Inr (c\<lparr>blocks := (blocks c)[unat ?ix := [?b\<lparr>lru_value := 0\<rparr>]]\<rparr>)"
      using r one s by (intro update_lru_info_single) simp_all
    with True miss show ?thesis by (simp add: do_reference_def Let_def)
  next
    case False
    let ?b1 = "?b\<lparr>valid := True, dirty := (ref_type m = DATA_WRITE), tag := ?tg\<rparr>"
    let ?c1 = "c\<lparr>blocks := (blocks c)[unat ?ix := [?b1]]\<rparr>"
    let ?c2 = "?c1\<lparr>perf := count_miss (ref_type m) (perf ?c1)\<rparr>"
    have h: "handle_miss ?tg ?ix (ref_type m = DATA_WRITE) c = Inr ?c1"
    proof -
      have "handle_miss ?tg ?ix (ref_type m = DATA_WRITE) c
          = Inr (c\<lparr>blocks := (blocks c)[unat ?ix := (blocks c ! unat ?ix)[0 := ?b1]]\<rparr>)"
      proof -
        have "blocks c ! unat ?ix \<noteq> []" by (subst s) simp
        with r one show ?thesis by (simp add: handle_miss_def Let_def)
      qed
      also have "(blocks c ! unat ?ix)[0 := ?b1] = [?b1]" by (subst s) simp
      finally show ?thesis .
    qed
    have u: "update_lru_info ?tg ?ix ?c2
        = Inr (?c2\<lparr>blocks := (blocks ?c2)[unat ?ix := [?b1\<lparr>lru_value := 0\<rparr>]]\<rparr>)"
      using r one by (intro update_lru_info_single) simp_all
    from False miss h u show ?thesis by (auto simp: do_reference_def Let_def)
  qed
qed

lemma do_reference_direct_mapped_ok:
  assumes "wf_cache c" and "associativity c = 1"
  shows "\<exists>c'. do_reference m c = Inr c'"
  unfolding do_reference_direct_mapped [OF assms] Let_def by simp

lemma do_reference_associativity:
  "do_reference m c = Inr c' \<Longrightarrow> associativity c' = associativity c"
  by (erule do_reference_InrE) simp

lemma do_references_direct_mapped_ok:
  "wf_cache c \<Longrightarrow> associativity c = 1 \<Longrightarrow> \<exists>c'. do_references ms c = Inr c'"
proof (induction ms arbitrary: c)
  case Nil
  show ?case by simp
next
  case (Cons m ms)
  from do_reference_direct_mapped_ok [OF Cons.prems, of m]
  obtain c1 where 1: "do_reference m c = Inr c1" ..
  have "wf_cache c1" using Cons.prems(1) 1 by (rule do_reference_wf)
  moreover have "associativity c1 = 1" using do_reference_associativity [OF 1] Cons.prems(2) by simp
  ultimately have "\<exists>c'. do_references ms c1 = Inr c'" by (rule Cons.IH)
  with 1 show ?case by simp
qed

lemma cold_miss:
  assumes "wf_cache c" and "\<And>s b. s \<in> set (blocks c) \<Longrightarrow> b \<in> set s \<Longrightarrow> \<not> valid b"
  shows "is_miss (get_tag_from_address (address m) c) (get_index_from_address (address m) c) c
       = Inr True"
proof -
  let ?ix = "get_index_from_address (address m) c"
  have r: "unat ?ix < length (blocks c)" using assms(1) by (rule index_in_range)
  have len: "length (blocks c ! unat ?ix) = unat (associativity c)"
    using assms(1) r by (simp add: wf_cache_def list_all_length)
  have "\<not> valid (blocks c ! unat ?ix ! k)" if "k < unat (associativity c)" for k
    using that r len by (intro assms(2) [of "blocks c ! unat ?ix"]) simp_all
  then show ?thesis unfolding is_miss_ok [OF assms(1) r] by simp
qed

lemma cold_miss_exits:
  assumes "wf_cache c" and "\<And>s b. s \<in> set (blocks c) \<Longrightarrow> b \<in> set s \<Longrightarrow> \<not> valid b"
    and "associativity c \<noteq> 1"
  shows "do_reference m c = Inl (Exited 1)"
  using cold_miss [OF assms(1,2), where m = m] assms(3)
  by (simp add: do_reference_def handle_miss_def)

section \<open>Recency\<close>

lemma list_all_update:
  "list_all P xs \<Longrightarrow> P y \<Longrightarrow> list_all P (xs[i := y])"
proof -
  assume a: "list_all P xs" "P y"
  have "P (xs[i := y] ! n)" if "n < length xs" for n
    using a that by (cases "n = i") (simp_all add: list_all_length)
  then show ?thesis by (simp add: list_all_length)
qed

lemma recency_step:
  assumes wf: "wf_cache c" and one: "associativity c = 1"
    and inv: "list_all recency_invariant (blocks c)"
    and step: "do_reference m c = Inr c'"
  shows "list_all recency_invariant (blocks c')"
proof -
  have single: "recency_invariant [b]" if "lru_value b = 0" for b
    using that by (simp add: recency_invariant_def)
  from step obtain b where "blocks c' = (blocks c)[unat (get_index_from_address (address m) c) := [b]]"
    and "lru_value b = 0"
    unfolding do_reference_direct_mapped [OF wf one] Let_def
    by (auto split: if_splits)
  with inv single show ?thesis by (simp add: list_all_update)
qed

lemma recency_run:
  "wf_cache c \<Longrightarrow> associativity c = 1 \<Longrightarrow> list_all recency_invariant (blocks c) \<Longrightarrow>
   do_references ms c = Inr c' \<Longrightarrow> list_all recency_invariant (blocks c')"
proof (induction ms arbitrary: c)
  case Nil
  then show ?case by simp
next
  case (Cons m ms)
  from Cons.prems(4) obtain c1 where 1: "do_reference m c = Inr c1"
    and 2: "do_references ms c1 = Inr c'"
    by (auto split: sum.splits)
  have "wf_cache c1" using Cons.prems(1) 1 by (rule do_reference_wf)
  moreover have "associativity c1 = 1"
    using do_reference_associativity [OF 1] Cons.prems(2) by simp
  moreover have "list_all recency_invariant (blocks c1)"
    using Cons.prems(1,2,3) 1 by (rule recency_step)
  ultimately show ?case using 2 by (rule Cons.IH)
qed

lemma cold_recency:
  assumes "\<And>s b. s \<in> set (blocks c) \<Longrightarrow> b \<in> set s \<Longrightarrow> \<not> valid b"
  shows "list_all recency_invariant (blocks c)"
  using assms by (auto simp: list_all_iff recency_invariant_def list_ex_iff)

lemma reachable_recency:
  assumes c0: "create_cache_struct h dm sz a bs = Inr (Some c0)"
    and run: "do_references ms c0 = Inr c"
  shows "list_all recency_invariant (blocks c)"
proof -
  note wf = create_cache_struct_wf(1) [OF c0]
  note cold = create_cache_struct_wf(4) [OF c0]
  have a: "associativity c0 = a" using c0 by (rule create_cache_struct_wf(2))
  have inv0: "list_all recency_invariant (blocks c0)" using cold by (rule cold_recency)
  show ?thesis
  proof (cases "a = 1")
    case True
    with a have "associativity c0 = 1" by simp
    with wf show ?thesis using inv0 run by (rule recency_run)
  next
    case False
    have "ms = []"
    proof (cases ms)
      case Nil
      then show ?thesis .
    next
      case (Cons m ms')
      from False a have "associativity c0 \<noteq> 1" by simp
      with wf cold have "do_reference m c0 = Inl (Exited 1)" by (intro cold_miss_exits)
      with run Cons show ?thesis by simp
    qed
    with run inv0 show ?thesis by simp
  qed
qed

lemma touch_unique:
  assumes r: "unat index < length (blocks c)"
    and len: "length (blocks c ! unat index) = unat (associativity c)"
    and k: "k < unat (associativity c)"
    and hit: "valid (blocks c ! unat index ! k)" "tag (blocks c ! unat index ! k) = tg"
    and uniq: "\<And>j. j < unat (associativity c) \<Longrightarrow> j \<noteq> k \<Longrightarrow>
          \<not> (valid (blocks c ! unat index ! j) \<and> tag (blocks c ! unat index ! j) = tg)"
  shows "update_lru_info tg index c
       = Inr (c\<lparr>blocks := (blocks c)[unat index := spec_touch (blocks c ! unat index) k]\<rparr>)"
proof -
  let ?cb = "blocks c ! unat index"
  let ?n = "unat (associativity c)"
  from k have nz: "associativity c \<noteq> 0" by (auto simp: unat_gt_0)
  have fit: "0 + ?n \<le> length ?cb" using len by simp
  have find: "lru_find tg ?cb 0 ?n 0 = Inr (if lru_value (?cb ! k) = 0 then None else Some k)"
    using fit _ _ hit by (rule lru_find_match) (use k uniq in simp_all)
  show ?thesis
  proof (cases "lru_value (?cb ! k) = 0")
    case True
    then have "spec_touch ?cb k = ?cb" by (simp add: spec_touch_def)
    then have "c\<lparr>blocks := (blocks c)[unat index := spec_touch ?cb k]\<rparr> = c" by simp
    moreover from True find nz r have "update_lru_info tg index c = Inr c"
      by (simp add: update_lru_info_def)
    ultimately show ?thesis by simp
  next
    case False
    have "lru_age ?cb 0 ?n k = Inr (spec_touch ?cb k)"
      unfolding lru_age_eq [OF fit] spec_touch_def using False len by simp
    with False find nz r show ?thesis by (simp add: update_lru_info_def)
  qed
qed

section \<open>C1: the install operation\<close>

text \<open>
  C1 (as amended). \<^verbatim>\<open>handle_miss\<close> supports associativity 1 only. For any other
  associativity it ends the process with \<^verbatim>\<open>exit(1)\<close> and installs nothing. In a
  well-formed cache of associativity 1 it overwrites the single block of the indexed set
  (valid = true, dirty = is\_write, tag = tag), which is the block the specification's
  selection picks (maximum recency, lowest index), and a reference that misses replaces
  the resident block of its set and leaves every other set as it was.
\<close>

theorem handle_miss_direct_mapped_only:
  "(associativity c \<noteq> 1 \<longrightarrow> handle_miss tg index w c = Inl (Exited 1))
   \<and> (wf_cache c \<and> associativity c = 1 \<and> unat index < length (blocks c) \<longrightarrow>
        spec_lru_victim (blocks c ! unat index) = 0
        \<and> handle_miss tg index w c
            = Inr (c\<lparr>blocks := (blocks c)[unat index :=
                       spec_install (blocks c ! unat index) tg w]\<rparr>))
   \<and> (wf_cache c \<and> associativity c = 1
        \<and> is_miss (get_tag_from_address (address m) c)
             (get_index_from_address (address m) c) c = Inr True \<longrightarrow>
        do_reference m c
          = Inr (c\<lparr>blocks := (blocks c)[unat (get_index_from_address (address m) c) :=
                    [(blocks c ! unat (get_index_from_address (address m) c) ! 0)
                       \<lparr>valid := True, dirty := (ref_type m = DATA_WRITE),
                        tag := get_tag_from_address (address m) c, lru_value := 0\<rparr>]],
                  perf := count_reference (ref_type m) (count_miss (ref_type m) (perf c))\<rparr>))"
proof (intro conjI impI)
  assume "associativity c \<noteq> 1"
  then show "handle_miss tg index w c = Inl (Exited 1)" by (simp add: handle_miss_def)
next
  assume a: "wf_cache c \<and> associativity c = 1 \<and> unat index < length (blocks c)"
  then have s: "blocks c ! unat index = [blocks c ! unat index ! 0]"
    by (intro singleton_set) simp_all
  show "spec_lru_victim (blocks c ! unat index) = 0"
    by (subst s) (simp add: spec_lru_victim_def)
  then have "spec_install (blocks c ! unat index) tg w
      = (blocks c ! unat index)[0 := (blocks c ! unat index ! 0)\<lparr>valid := True, dirty := w, tag := tg\<rparr>]"
    by (simp add: spec_install_def)
  moreover have "blocks c ! unat index \<noteq> []" by (subst s) simp
  ultimately show "handle_miss tg index w c
            = Inr (c\<lparr>blocks := (blocks c)[unat index :=
                       spec_install (blocks c ! unat index) tg w]\<rparr>)"
    using a by (simp add: handle_miss_def Let_def)
next
  let ?ix = "get_index_from_address (address m) c"
  let ?tg = "get_tag_from_address (address m) c"
  assume a: "wf_cache c \<and> associativity c = 1 \<and> is_miss ?tg ?ix c = Inr True"
  then have wf: "wf_cache c" and one: "associativity c = 1" by simp_all
  have r: "unat ?ix < length (blocks c)" using wf by (rule index_in_range)
  have s: "blocks c ! unat ?ix = [blocks c ! unat ?ix ! 0]" using wf one r by (rule singleton_set)
  from a have "\<not> (tag (blocks c ! unat ?ix ! 0) = ?tg \<and> valid (blocks c ! unat ?ix ! 0))"
    unfolding is_miss_single [OF r one s] by simp
  then show "do_reference m c
          = Inr (c\<lparr>blocks := (blocks c)[unat ?ix :=
                    [(blocks c ! unat ?ix ! 0)
                       \<lparr>valid := True, dirty := (ref_type m = DATA_WRITE),
                        tag := ?tg, lru_value := 0\<rparr>]],
                  perf := count_reference (ref_type m) (count_miss (ref_type m) (perf c))\<rparr>)"
    unfolding do_reference_direct_mapped [OF wf one] Let_def by auto
qed

theorem handle_miss_direct_mapped_only_witness:
  "associativity aged_cache \<noteq> 1
   \<and> handle_miss 3 0 True aged_cache = Inl (Exited 1)
   \<and> wf_cache warm_cache \<and> associativity warm_cache = 1
   \<and> unat (0 :: u32) < length (blocks warm_cache)
   \<and> spec_lru_victim (blocks warm_cache ! unat (0 :: u32)) = 0
   \<and> handle_miss 3 0 True warm_cache
       = Inr (warm_cache\<lparr>blocks := [[\<lparr>valid = True, dirty = True, lru_value = 0, tag = 3\<rparr>]]\<rparr>)
   \<and> is_miss (get_tag_from_address (address (store 3)) warm_cache)
        (get_index_from_address (address (store 3)) warm_cache) warm_cache = Inr True
   \<and> do_reference (store 3) warm_cache
       = Inr (warm_cache
               \<lparr>blocks := [[\<lparr>valid = True, dirty = True, lru_value = 0, tag = 3\<rparr>]],
                perf := \<lparr>instruction_reference_count = 1, instruction_miss_count = 1,
                         data_read_reference_count = 0, data_read_miss_count = 0,
                         data_write_reference_count = 1, data_write_miss_count = 1\<rparr>\<rparr>)"
proof -
  have a: "associativity aged_cache \<noteq> 1" by code_simp
  have w: "wf_cache warm_cache" "associativity warm_cache = 1"
    "unat (0 :: u32) < length (blocks warm_cache)"
    by code_simp+
  have i: "spec_install (blocks warm_cache ! unat (0 :: u32)) 3 True
      = [\<lparr>valid = True, dirty = True, lru_value = 0, tag = 3\<rparr>]"
    by code_simp
  have m: "is_miss (get_tag_from_address (address (store 3)) warm_cache)
        (get_index_from_address (address (store 3)) warm_cache) warm_cache = Inr True"
    by code_simp
  have d: "do_reference (store 3) warm_cache
       = Inr (warm_cache
               \<lparr>blocks := [[\<lparr>valid = True, dirty = True, lru_value = 0, tag = 3\<rparr>]],
                perf := \<lparr>instruction_reference_count = 1, instruction_miss_count = 1,
                         data_read_reference_count = 0, data_read_miss_count = 0,
                         data_write_reference_count = 1, data_write_miss_count = 1\<rparr>\<rparr>)"
    by code_simp
  have b: "(blocks warm_cache)[unat (0 :: u32) := [\<lparr>valid = True, dirty = True, lru_value = 0, tag = 3\<rparr>]]
      = [[\<lparr>valid = True, dirty = True, lru_value = 0, tag = 3\<rparr>]]"
    by code_simp
  note t1 = handle_miss_direct_mapped_only [of aged_cache 3 0 True "store 3"]
  note t2 = handle_miss_direct_mapped_only [of warm_cache 3 0 True "store 3"]
  from t1 a have 1: "handle_miss 3 0 True aged_cache = Inl (Exited 1)" by blast
  from t2 w have 2: "spec_lru_victim (blocks warm_cache ! unat (0 :: u32)) = 0"
    and 3: "handle_miss 3 0 True warm_cache
       = Inr (warm_cache\<lparr>blocks := (blocks warm_cache)[unat (0 :: u32) :=
            spec_install (blocks warm_cache ! unat (0 :: u32)) 3 True]\<rparr>)"
    by blast+
  from a 1 w 2 3 m d show ?thesis unfolding i b by (intro conjI)
qed

text \<open>
  On the two-way cache as created, the install that the first reference needs exits,
  where the specification's install would fill block 0; so do three references with
  distinct tags.
\<close>

theorem handle_miss_two_way_counterexample:
  "create_cache_struct heap0 ILP32 2 2 1 = Inr (Some two_way_cache)
   \<and> handle_miss 0 0 False two_way_cache = Inl (Exited 1)
   \<and> spec_install (blocks two_way_cache ! 0) 0 False
       = [\<lparr>valid = True, dirty = False, lru_value = 7, tag = 0\<rparr>,
          \<lparr>valid = False, dirty = False, lru_value = 7, tag = 0\<rparr>]
   \<and> do_references [fetch 0, fetch 1, fetch 2] two_way_cache = Inl (Exited 1)"
  by code_simp

section \<open>C3: when reference processing succeeds\<close>

text \<open>
  C3 (as amended). For every cache that \<^verbatim>\<open>create_cache_struct\<close> returns with
  associativity 1, every sequence of references is processed to the end: each
  \<^verbatim>\<open>do_reference\<close> returns normally, with a well-formed cache. A cache of any other
  associativity is constructed without complaint, and the first reference made to it
  misses and ends the process with \<^verbatim>\<open>exit(1)\<close> in the middle of the simulation.
\<close>

theorem do_references_total_direct_mapped:
  assumes "create_cache_struct h dm sz a bs = Inr (Some c0)"
  shows "(a = 1 \<longrightarrow> (\<exists>c. do_references ms c0 = Inr c \<and> wf_cache c))
       \<and> (a \<noteq> 1 \<longrightarrow> do_reference m c0 = Inl (Exited 1))"
proof (intro conjI impI)
  note wf = create_cache_struct_wf(1) [OF assms]
  note cold = create_cache_struct_wf(4) [OF assms]
  have a: "associativity c0 = a" using assms by (rule create_cache_struct_wf(2))
  {
    assume "a = 1"
    with a have one: "associativity c0 = 1" by simp
    from do_references_direct_mapped_ok [OF wf one]
    obtain c where c: "do_references ms c0 = Inr c" ..
    with wf have "wf_cache c" by (rule do_references_wf)
    with c show "\<exists>c. do_references ms c0 = Inr c \<and> wf_cache c" by blast
  next
    assume "a \<noteq> 1"
    with a have "associativity c0 \<noteq> 1" by simp
    with wf cold show "do_reference m c0 = Inl (Exited 1)" by (intro cold_miss_exits)
  }
qed

theorem do_references_total_direct_mapped_witness:
  "create_cache_struct heap0 ILP32 2 1 1 = Inr (Some two_set_cache)
   \<and> (\<exists>c. do_references [fetch 0, store 1, fetch 2, store 3, fetch 0] two_set_cache = Inr c
          \<and> wf_cache c)
   \<and> create_cache_struct heap0 ILP32 2 2 1 = Inr (Some two_way_cache)
   \<and> do_reference (store 1) two_way_cache = Inl (Exited 1)"
proof -
  have c1: "create_cache_struct heap0 ILP32 2 1 1 = Inr (Some two_set_cache)" by code_simp
  have c2: "create_cache_struct heap0 ILP32 2 2 1 = Inr (Some two_way_cache)" by code_simp
  from do_references_total_direct_mapped [OF c1, of "[fetch 0, store 1, fetch 2, store 3, fetch 0]"]
    do_references_total_direct_mapped [OF c2, of _ "store 1"] c1 c2
  show ?thesis by simp
qed

text \<open>The two-way cache is constructed, and its first reference exits.\<close>

theorem do_reference_two_way_counterexample:
  "create_cache_struct heap0 ILP32 2 2 1 = Inr (Some two_way_cache)
   \<and> do_reference (fetch 0) two_way_cache = Inl (Exited 1)"
  by code_simp

section \<open>C4: the recency invariant\<close>

text \<open>
  C4. In every cache reached from \<^verbatim>\<open>create_cache_struct\<close> by a sequence of
  \<^verbatim>\<open>do_reference\<close> calls that return, every set with a valid block (a block is valid only
  once it has been referenced) has exactly one block whose \<^verbatim>\<open>lru_value\<close> is 0. And
  \<^verbatim>\<open>update_lru_info\<close>, on a set of \<^verbatim>\<open>associativity\<close> blocks in which block \<open>k\<close> is the
  one valid block with the tag, is the touch of block \<open>k\<close>: the set is unchanged when
  that block's \<^verbatim>\<open>lru_value\<close> is 0, and otherwise block \<open>k\<close> gets 0 and every other
  block's \<^verbatim>\<open>lru_value\<close> is incremented by 1.
\<close>

theorem recency_invariant_reachable:
  "(create_cache_struct h dm sz a bs = Inr (Some c0) \<and> do_references ms c0 = Inr c \<longrightarrow>
      list_all recency_invariant (blocks c))
   \<and> (unat index < length (blocks d)
       \<and> length (blocks d ! unat index) = unat (associativity d)
       \<and> k < unat (associativity d)
       \<and> valid (blocks d ! unat index ! k) \<and> tag (blocks d ! unat index ! k) = tg
       \<and> (\<forall>j<unat (associativity d). j \<noteq> k \<longrightarrow>
             \<not> (valid (blocks d ! unat index ! j) \<and> tag (blocks d ! unat index ! j) = tg)) \<longrightarrow>
      update_lru_info tg index d
        = Inr (d\<lparr>blocks := (blocks d)[unat index := spec_touch (blocks d ! unat index) k]\<rparr>))"
proof (intro conjI impI)
  assume "create_cache_struct h dm sz a bs = Inr (Some c0) \<and> do_references ms c0 = Inr c"
  then show "list_all recency_invariant (blocks c)"
    using reachable_recency [of h dm sz a bs c0 ms c] by simp
next
  assume a: "unat index < length (blocks d)
       \<and> length (blocks d ! unat index) = unat (associativity d)
       \<and> k < unat (associativity d)
       \<and> valid (blocks d ! unat index ! k) \<and> tag (blocks d ! unat index ! k) = tg
       \<and> (\<forall>j<unat (associativity d). j \<noteq> k \<longrightarrow>
             \<not> (valid (blocks d ! unat index ! j) \<and> tag (blocks d ! unat index ! j) = tg))"
  then show "update_lru_info tg index d
        = Inr (d\<lparr>blocks := (blocks d)[unat index := spec_touch (blocks d ! unat index) k]\<rparr>)"
    by (intro touch_unique) simp_all
qed

theorem recency_invariant_reachable_witness:
  "create_cache_struct heap0 ILP32 2 1 1 = Inr (Some two_set_cache)
   \<and> do_references [fetch 0, store 2] two_set_cache
       = Inr (two_set_cache
               \<lparr>blocks := [[\<lparr>valid = True, dirty = True, lru_value = 0, tag = 1\<rparr>],
                           [\<lparr>valid = False, dirty = False, lru_value = 7, tag = 0\<rparr>]],
                perf := \<lparr>instruction_reference_count = 1, instruction_miss_count = 1,
                         data_read_reference_count = 0, data_read_miss_count = 0,
                         data_write_reference_count = 1, data_write_miss_count = 1\<rparr>\<rparr>)
   \<and> list_all recency_invariant
        [[\<lparr>valid = True, dirty = True, lru_value = 0, tag = 1\<rparr>],
         [\<lparr>valid = False, dirty = False, lru_value = 7, tag = 0\<rparr>]]
   \<and> update_lru_info 5 0 aged_cache
       = Inr (aged_cache
               \<lparr>blocks := [[\<lparr>valid = True, dirty = False, lru_value = 0, tag = 5\<rparr>,
                            \<lparr>valid = True, dirty = False, lru_value = 1, tag = 9\<rparr>]]\<rparr>)"
proof -
  let ?c = "two_set_cache
               \<lparr>blocks := [[\<lparr>valid = True, dirty = True, lru_value = 0, tag = 1\<rparr>],
                           [\<lparr>valid = False, dirty = False, lru_value = 7, tag = 0\<rparr>]],
                perf := \<lparr>instruction_reference_count = 1, instruction_miss_count = 1,
                         data_read_reference_count = 0, data_read_miss_count = 0,
                         data_write_reference_count = 1, data_write_miss_count = 1\<rparr>\<rparr>"
  have c: "create_cache_struct heap0 ILP32 2 1 1 = Inr (Some two_set_cache)" by code_simp
  have r: "do_references [fetch 0, store 2] two_set_cache = Inr ?c" by code_simp
  have h: "unat (0 :: u32) < length (blocks aged_cache)"
    "length (blocks aged_cache ! unat (0 :: u32)) = unat (associativity aged_cache)"
    "0 < unat (associativity aged_cache)"
    "valid (blocks aged_cache ! unat (0 :: u32) ! 0)"
    "tag (blocks aged_cache ! unat (0 :: u32) ! 0) = 5"
    by code_simp+
  have u: "\<forall>j<unat (associativity aged_cache). j \<noteq> 0 \<longrightarrow>
             \<not> (valid (blocks aged_cache ! unat (0 :: u32) ! j)
                \<and> tag (blocks aged_cache ! unat (0 :: u32) ! j) = 5)"
  proof (intro allI impI)
    fix j assume j: "j < unat (associativity aged_cache)" "j \<noteq> 0"
    have "unat (associativity aged_cache) = 2" by code_simp
    with j have "j = 1" by simp
    moreover have "tag (blocks aged_cache ! unat (0 :: u32) ! 1) = 9" by code_simp
    ultimately show "\<not> (valid (blocks aged_cache ! unat (0 :: u32) ! j)
                \<and> tag (blocks aged_cache ! unat (0 :: u32) ! j) = 5)"
      by simp
  qed
  have t: "aged_cache\<lparr>blocks := (blocks aged_cache)[unat (0 :: u32) :=
              spec_touch (blocks aged_cache ! unat (0 :: u32)) 0]\<rparr>
      = aged_cache
               \<lparr>blocks := [[\<lparr>valid = True, dirty = False, lru_value = 0, tag = 5\<rparr>,
                            \<lparr>valid = True, dirty = False, lru_value = 1, tag = 9\<rparr>]]\<rparr>"
    by code_simp
  note thm1 = recency_invariant_reachable
    [of heap0 ILP32 2 1 1 two_set_cache "[fetch 0, store 2]" ?c 0 aged_cache 0 5, THEN conjunct1]
  note thm2 = recency_invariant_reachable
    [of heap0 ILP32 2 1 1 two_set_cache "[fetch 0, store 2]" ?c 0 aged_cache 0 5, THEN conjunct2]
  from thm1 c r have 1: "list_all recency_invariant (blocks ?c)" by blast
  from thm2 h u have 2: "update_lru_info 5 0 aged_cache
      = Inr (aged_cache\<lparr>blocks := (blocks aged_cache)[unat (0 :: u32) :=
              spec_touch (blocks aged_cache ! unat (0 :: u32)) 0]\<rparr>)"
    by blast
  from c r 1 2 show ?thesis unfolding t by simp
qed

section \<open>C6: decoding an address and putting it together again\<close>

lemma bit_u32: "bit (x :: u32) n \<Longrightarrow> n < 32"
  using bit_imp_le_length [of x n] by simp

lemma bit_push_uint_drop:
  "bit (push_bit k (uint (drop_bit k (x :: u32)))) n \<longleftrightarrow> k \<le> n \<and> bit x n"
  by (auto simp: bit_push_bit_iff bit_uint_iff bit_drop_bit_eq dest: bit_u32)

lemma bit_push_uint_drop_mask:
  "bit (push_bit k (uint (drop_bit k (x :: u32) AND mask j))) n \<longleftrightarrow> k \<le> n \<and> n < k + j \<and> bit x n"
  by (auto simp: bit_push_bit_iff bit_uint_iff bit_drop_bit_eq bit_and_iff bit_mask_iff dest: bit_u32)

lemma bit_uint_mask:
  "bit (uint (x :: u32) AND mask j) n \<longleftrightarrow> n < j \<and> bit x n"
  by (auto simp: bit_uint_iff bit_and_iff bit_mask_iff dest: bit_u32)

lemma decode_recombine:
  assumes "32 \<le> aw"
  shows "push_bit (ko + ki) (uint (drop_bit (ko + ki) x :: u32))
         OR push_bit ko (uint (drop_bit ko x AND mask ki :: u32))
         OR (uint (x :: u32) AND mask ko)
       = uint x AND mask aw"
proof (rule bit_eqI)
  fix n
  have hi: "n < 32" if "bit x n"
    using that by (rule bit_u32)
  have "bit (push_bit (ko + ki) (uint (drop_bit (ko + ki) x :: u32))
         OR push_bit ko (uint (drop_bit ko x AND mask ki :: u32))
         OR (uint (x :: u32) AND mask ko)) n
      \<longleftrightarrow> (ko + ki \<le> n \<and> bit x n) \<or> (ko \<le> n \<and> n < ko + ki \<and> bit x n) \<or> (n < ko \<and> bit x n)"
    by (simp only: bit_or_iff bit_push_uint_drop bit_push_uint_drop_mask bit_uint_mask)
  also have "\<dots> \<longleftrightarrow> bit x n" by auto
  also have "\<dots> \<longleftrightarrow> n < aw \<and> bit x n" using hi assms by auto
  also have "\<dots> \<longleftrightarrow> bit (uint x AND mask aw) n" by (simp only: bit_uint_mask)
  finally show "bit (push_bit (ko + ki) (uint (drop_bit (ko + ki) x :: u32))
         OR push_bit ko (uint (drop_bit ko x AND mask ki :: u32))
         OR (uint (x :: u32) AND mask ko)) n
       = bit (uint x AND mask aw) n" .
qed

lemma push_one_minus_one: "push_bit n 1 - 1 = (mask n :: 'a :: {semiring_bit_operations, ring_1})"
  by (simp add: mask_eq_exp_minus_1)

text \<open>
  C6. For every cache that \<^verbatim>\<open>create_cache_struct\<close> returns and every 32-bit address, the tag
  of \<^verbatim>\<open>get_tag_from_address\<close> shifted left by \<open>offset_width + index_width\<close>, or-ed with the
  index of \<^verbatim>\<open>get_index_from_address\<close> shifted left by \<open>offset_width\<close> and with the offset
  \<open>address & ((1 << offset_width) - 1)\<close>, is the address masked to \<open>address_width\<close> bits
  (computed on unbounded integers, as the specification writes it).
\<close>

theorem address_decode_roundtrip:
  assumes "create_cache_struct h dm sz a bs = Inr (Some c)"
  shows "push_bit (unat (offset_width (addr_info c)) + unat (index_width (addr_info c)))
           (uint (get_tag_from_address x c))
         OR push_bit (unat (offset_width (addr_info c))) (uint (get_index_from_address x c))
         OR (uint x AND (push_bit (unat (offset_width (addr_info c))) 1 - 1))
       = uint x AND (push_bit (unat (address_width (addr_info c))) 1 - 1)"
proof -
  from assms obtain ko ki where k: "ko + ki < 32"
    and w: "addr_info c = \<lparr>address_width = word_of_nat (8 * sizeof_void_ptr dm),
                offset_width = word_of_nat ko,
                index_width = word_of_nat ki,
                tag_width = word_of_nat (8 * sizeof_void_ptr dm) - word_of_nat ko - word_of_nat ki\<rparr>"
    by (rule create_cache_struct_SomeE) simp
  have ko: "unat (word_of_nat ko :: u32) = ko" using k by (intro unat_small) simp
  have ki: "unat (word_of_nat ki :: u32) = ki" using k by (intro unat_small) simp
  have koi: "unat (word_of_nat ko + word_of_nat ki :: u32) = ko + ki"
  proof -
    have "(word_of_nat ko + word_of_nat ki :: u32) = word_of_nat (ko + ki)" by simp
    moreover have "unat (word_of_nat (ko + ki) :: u32) = ko + ki"
      using k by (intro unat_small) simp
    ultimately show ?thesis by (simp only:)
  qed
  have dm: "8 * sizeof_void_ptr dm = 32 \<or> 8 * sizeof_void_ptr dm = 64" by (cases dm) simp_all
  have aw: "unat (word_of_nat (8 * sizeof_void_ptr dm) :: u32) = 8 * sizeof_void_ptr dm"
    using dm by (intro unat_small) auto
  have wide: "32 \<le> 8 * sizeof_void_ptr dm" using dm by auto
  have tg: "get_tag_from_address x c = drop_bit (ko + ki) x"
    by (simp only: get_tag_from_address_def Let_def w address_info.simps koi)
  have ix: "get_index_from_address x c = drop_bit ko x AND mask ki"
    by (simp only: get_index_from_address_def Let_def w address_info.simps ko ki push_one_minus_one)
  show ?thesis
    unfolding tg ix w address_info.simps ko ki aw push_one_minus_one
    using wide by (rule decode_recombine)
qed

theorem address_decode_roundtrip_witness:
  "create_cache_struct heap0 ILP32 8 1 2 = Inr (Some quad_cache)
   \<and> get_tag_from_address 3735928559 quad_cache = 466991069
   \<and> get_index_from_address 3735928559 quad_cache = 3
   \<and> push_bit (unat (offset_width (addr_info quad_cache)) + unat (index_width (addr_info quad_cache)))
           (uint (get_tag_from_address 3735928559 quad_cache))
         OR push_bit (unat (offset_width (addr_info quad_cache)))
              (uint (get_index_from_address 3735928559 quad_cache))
         OR (uint (3735928559 :: u32) AND (push_bit (unat (offset_width (addr_info quad_cache))) 1 - 1))
       = uint (3735928559 :: u32) AND (push_bit (unat (address_width (addr_info quad_cache))) 1 - 1)"
proof -
  have c: "create_cache_struct heap0 ILP32 8 1 2 = Inr (Some quad_cache)" by code_simp
  have t: "get_tag_from_address 3735928559 quad_cache = 466991069" by code_simp
  have i: "get_index_from_address 3735928559 quad_cache = 3" by code_simp
  from c t i address_decode_roundtrip [OF c, of 3735928559] show ?thesis by (intro conjI)
qed

section \<open>C5: the counters\<close>

lemma unat_inc: "unat x < 4294967295 \<Longrightarrow> unat (x + 1 :: u32) = unat x + 1"
  using unat_add_lem [of x 1] by simp

lemma word_le_inc: "unat x < 4294967295 \<Longrightarrow> x \<le> (x + 1 :: u32)"
  by (simp add: word_le_nat_alt unat_inc)

lemma perf_le_refl: "perf_le p p"
  by (simp add: perf_le_def)

lemma perf_le_trans: "perf_le p q \<Longrightarrow> perf_le q r \<Longrightarrow> perf_le p r"
  by (auto simp: perf_le_def)

lemma typed_Nil: "typed [] = []"
  by (simp add: typed_def)

lemma typed_Cons:
  "typed (m # ms) = (if ref_type m = OUT_OF_RANGE then typed ms else m # typed ms)"
  by (simp add: typed_def)

lemma count_out_of_range:
  "count_reference OUT_OF_RANGE p = p" "count_miss OUT_OF_RANGE p = p"
  by (simp_all add: count_reference_def count_miss_def)

lemma count_reference_ok:
  assumes "counts_ok n p" and "n < 4294967295" and "t \<noteq> OUT_OF_RANGE"
  shows "counts_ok (Suc n) (count_reference t p) \<and> perf_le p (count_reference t p)"
  using assms
  by (cases t)
    (auto simp: counts_ok_def reference_total_def perf_le_def count_reference_def
       unat_inc word_le_inc)

lemma count_miss_reference_ok:
  assumes "counts_ok n p" and "n < 4294967295" and "t \<noteq> OUT_OF_RANGE"
  shows "counts_ok (Suc n) (count_reference t (count_miss t p))
       \<and> perf_le p (count_reference t (count_miss t p))"
  using assms
  by (cases t)
    (auto simp: counts_ok_def reference_total_def perf_le_def count_reference_def count_miss_def
       unat_inc word_le_inc)

lemma do_reference_counts:
  assumes "counts_ok n (perf c)" and "n + length (typed [m]) < 4294967296"
    and "do_reference m c = Inr c'"
  shows "counts_ok (n + length (typed [m])) (perf c') \<and> perf_le (perf c) (perf c')"
proof (cases "ref_type m = OUT_OF_RANGE")
  case True
  with assms(1) show ?thesis
    unfolding do_reference_perf [OF assms(3)]
    by (simp add: count_out_of_range typed_Cons typed_Nil perf_le_refl)
next
  case False
  with assms(2) have n: "n < 4294967295" by (simp add: typed_Cons typed_Nil)
  from False have l: "n + length (typed [m]) = Suc n" by (simp add: typed_Cons typed_Nil)
  show ?thesis
    unfolding do_reference_perf [OF assms(3)] l
    using count_reference_ok [OF assms(1) n False] count_miss_reference_ok [OF assms(1) n False]
    by simp
qed

lemma do_references_counts:
  "counts_ok n (perf c) \<Longrightarrow> n + length (typed ms) < 4294967296 \<Longrightarrow>
   do_references ms c = Inr c' \<Longrightarrow>
   counts_ok (n + length (typed ms)) (perf c') \<and> perf_le (perf c) (perf c')"
proof (induction ms arbitrary: c n)
  case Nil
  then show ?case by (simp add: perf_le_refl typed_Nil)
next
  case (Cons m ms)
  from Cons.prems(3) obtain c1 where 1: "do_reference m c = Inr c1"
    and 2: "do_references ms c1 = Inr c'"
    by (auto split: sum.splits)
  have l: "length (typed (m # ms)) = length (typed [m]) + length (typed ms)"
    by (simp add: typed_Cons typed_Nil)
  from Cons.prems(2) have n: "n + length (typed [m]) < 4294967296"
    "(n + length (typed [m])) + length (typed ms) < 4294967296"
    unfolding l by simp_all
  from do_reference_counts [OF Cons.prems(1) n(1) 1]
  have a: "counts_ok (n + length (typed [m])) (perf c1)" and b: "perf_le (perf c) (perf c1)"
    by simp_all
  from Cons.IH [OF a n(2) 2]
  have "counts_ok (n + length (typed [m]) + length (typed ms)) (perf c')"
    and "perf_le (perf c1) (perf c')" by simp_all
  with b show ?case unfolding l by (auto intro: perf_le_trans simp: add.assoc)
qed

lemma count_reference_sum:
  "instruction_reference_count (count_reference t p) + data_read_reference_count (count_reference t p)
     + data_write_reference_count (count_reference t p)
   = instruction_reference_count p + data_read_reference_count p + data_write_reference_count p
     + word_of_nat (length (typed [\<lparr>address = x, ref_type = t\<rparr>]))"
  by (cases t) (simp_all add: count_reference_def typed_Cons typed_Nil)

lemma count_miss_references:
  "instruction_reference_count (count_miss t p) = instruction_reference_count p
   \<and> data_read_reference_count (count_miss t p) = data_read_reference_count p
   \<and> data_write_reference_count (count_miss t p) = data_write_reference_count p"
  by (cases t) (simp_all add: count_miss_def)

lemma do_references_sum:
  "do_references ms c = Inr c' \<Longrightarrow>
   instruction_reference_count (perf c') + data_read_reference_count (perf c')
     + data_write_reference_count (perf c')
   = instruction_reference_count (perf c) + data_read_reference_count (perf c)
     + data_write_reference_count (perf c) + word_of_nat (length (typed ms))"
proof (induction ms arbitrary: c)
  case Nil
  then show ?case by (simp add: typed_Nil)
next
  case (Cons m ms)
  from Cons.prems obtain c1 where 1: "do_reference m c = Inr c1"
    and 2: "do_references ms c1 = Inr c'"
    by (auto split: sum.splits)
  have l: "length (typed (m # ms)) = length (typed [m]) + length (typed ms)"
    by (simp add: typed_Cons typed_Nil)
  have m: "typed [m] = typed [\<lparr>address = address m, ref_type = ref_type m\<rparr>]"
    by (simp add: typed_Cons typed_Nil)
  have "instruction_reference_count (perf c1) + data_read_reference_count (perf c1)
     + data_write_reference_count (perf c1)
   = instruction_reference_count (perf c) + data_read_reference_count (perf c)
     + data_write_reference_count (perf c) + word_of_nat (length (typed [m]))"
    unfolding do_reference_perf [OF 1] count_reference_sum [where x = "address m"] m
    by (simp add: count_miss_references)
  with Cons.IH [OF 2] show ?case unfolding l by simp
qed

lemma warm_fetch:
  "do_reference (fetch 0) (warm_cache\<lparr>perf := p\<rparr>)
     = Inr (warm_cache\<lparr>perf := count_reference INSTRUCTION p\<rparr>)"
  by (simp add: do_reference_def warm_cache_def fetch_def get_tag_from_address_def
      get_index_from_address_def is_miss_def update_lru_info_def)

lemma warm_run:
  "do_references (replicate n (fetch 0)) (warm_cache\<lparr>perf := p\<rparr>)
     = Inr (warm_cache\<lparr>perf := p\<lparr>instruction_reference_count :=
              instruction_reference_count p + word_of_nat n\<rparr>\<rparr>)"
proof (induction n arbitrary: p)
  case 0
  show ?case by simp
next
  case (Suc n)
  show ?case
    by (simp add: warm_fetch Suc.IH count_reference_def add.assoc)
qed

text \<open>
  C5 (as amended). The counters are 32-bit \<^verbatim>\<open>unsigned int\<close>s and \<^verbatim>\<open>++\<close> wraps. A call of
  \<^verbatim>\<open>do_reference\<close> that returns adds 1 (modulo 2 to the 32) to the reference count of the
  reference's category, adds 1 to the miss count of that category exactly when the
  reference misses, and leaves the other counters unchanged. The categories are the three
  enumerators: a reference whose type field holds none of them (the parser leaves the
  field unset for a line it cannot read) is processed with no counter changed. After any
  sequence of calls from a created cache the three reference counts add up, modulo 2 to
  the 32, to the number of references processed whose type is an enumerator; they add up
  to that number itself, and no counter has decreased, as long as it is less than 2 to
  the 32.
\<close>

theorem counters_step_and_total:
  "(do_reference m c = Inr c' \<longrightarrow>
      instruction_reference_count (perf c')
        = instruction_reference_count (perf c) + (if ref_type m = INSTRUCTION then 1 else 0)
      \<and> data_read_reference_count (perf c')
        = data_read_reference_count (perf c) + (if ref_type m = DATA_READ then 1 else 0)
      \<and> data_write_reference_count (perf c')
        = data_write_reference_count (perf c) + (if ref_type m = DATA_WRITE then 1 else 0)
      \<and> instruction_miss_count (perf c')
        = instruction_miss_count (perf c)
          + (if ref_type m = INSTRUCTION
                \<and> is_miss (get_tag_from_address (address m) c)
                     (get_index_from_address (address m) c) c = Inr True then 1 else 0)
      \<and> data_read_miss_count (perf c')
        = data_read_miss_count (perf c)
          + (if ref_type m = DATA_READ
                \<and> is_miss (get_tag_from_address (address m) c)
                     (get_index_from_address (address m) c) c = Inr True then 1 else 0)
      \<and> data_write_miss_count (perf c')
        = data_write_miss_count (perf c)
          + (if ref_type m = DATA_WRITE
                \<and> is_miss (get_tag_from_address (address m) c)
                     (get_index_from_address (address m) c) c = Inr True then 1 else 0))
   \<and> (create_cache_struct h dm sz a bs = Inr (Some c0) \<and> do_references ms c0 = Inr c1 \<longrightarrow>
        instruction_reference_count (perf c1) + data_read_reference_count (perf c1)
          + data_write_reference_count (perf c1) = word_of_nat (length (typed ms))
        \<and> (length (typed ms) < 4294967296 \<longrightarrow>
             reference_total (perf c1) = length (typed ms)))
   \<and> (create_cache_struct h dm sz a bs = Inr (Some c0) \<and> do_references ms c0 = Inr c1
        \<and> do_references ms' c1 = Inr c2
        \<and> length (typed ms) + length (typed ms') < 4294967296 \<longrightarrow>
        perf_le (perf c1) (perf c2))"
proof (intro conjI impI)
  assume r: "do_reference m c = Inr c'"
  note p = do_reference_perf [OF r]
  show "instruction_reference_count (perf c')
        = instruction_reference_count (perf c) + (if ref_type m = INSTRUCTION then 1 else 0)"
    unfolding p by (cases "ref_type m") (simp_all add: count_reference_def count_miss_def)
  show "data_read_reference_count (perf c')
        = data_read_reference_count (perf c) + (if ref_type m = DATA_READ then 1 else 0)"
    unfolding p by (cases "ref_type m") (simp_all add: count_reference_def count_miss_def)
  show "data_write_reference_count (perf c')
        = data_write_reference_count (perf c) + (if ref_type m = DATA_WRITE then 1 else 0)"
    unfolding p by (cases "ref_type m") (simp_all add: count_reference_def count_miss_def)
  show "instruction_miss_count (perf c')
        = instruction_miss_count (perf c)
          + (if ref_type m = INSTRUCTION
                \<and> is_miss (get_tag_from_address (address m) c)
                     (get_index_from_address (address m) c) c = Inr True then 1 else 0)"
    unfolding p by (cases "ref_type m") (simp_all add: count_reference_def count_miss_def)
  show "data_read_miss_count (perf c')
        = data_read_miss_count (perf c)
          + (if ref_type m = DATA_READ
                \<and> is_miss (get_tag_from_address (address m) c)
                     (get_index_from_address (address m) c) c = Inr True then 1 else 0)"
    unfolding p by (cases "ref_type m") (simp_all add: count_reference_def count_miss_def)
  show "data_write_miss_count (perf c')
        = data_write_miss_count (perf c)
          + (if ref_type m = DATA_WRITE
                \<and> is_miss (get_tag_from_address (address m) c)
                     (get_index_from_address (address m) c) c = Inr True then 1 else 0)"
    unfolding p by (cases "ref_type m") (simp_all add: count_reference_def count_miss_def)
next
  assume a: "create_cache_struct h dm sz a bs = Inr (Some c0) \<and> do_references ms c0 = Inr c1"
  then have "create_cache_struct h dm sz a bs = Inr (Some c0)" by simp
  then have z: "perf c0 = zero_perf" by (rule create_cache_struct_wf(3))
  from a have run: "do_references ms c0 = Inr c1" by simp
  show "instruction_reference_count (perf c1) + data_read_reference_count (perf c1)
          + data_write_reference_count (perf c1) = word_of_nat (length (typed ms))"
    unfolding do_references_sum [OF run] z by (simp add: zero_perf_def)
  assume n: "length (typed ms) < 4294967296"
  have "counts_ok 0 (perf c0)"
    unfolding z by (simp add: counts_ok_def reference_total_def zero_perf_def)
  from do_references_counts [OF this _ run] n
  show "reference_total (perf c1) = length (typed ms)" by (simp add: counts_ok_def)
next
  assume a: "create_cache_struct h dm sz a bs = Inr (Some c0) \<and> do_references ms c0 = Inr c1
        \<and> do_references ms' c1 = Inr c2
        \<and> length (typed ms) + length (typed ms') < 4294967296"
  then have "create_cache_struct h dm sz a bs = Inr (Some c0)" by simp
  then have z: "perf c0 = zero_perf" by (rule create_cache_struct_wf(3))
  from a have run: "do_references ms c0 = Inr c1" and run': "do_references ms' c1 = Inr c2"
    and n: "length (typed ms) + length (typed ms') < 4294967296" by simp_all
  have "counts_ok 0 (perf c0)"
    unfolding z by (simp add: counts_ok_def reference_total_def zero_perf_def)
  from do_references_counts [OF this _ run] n
  have "counts_ok (length (typed ms)) (perf c1)" by simp
  from do_references_counts [OF this n run']
  show "perf_le (perf c1) (perf c2)" by simp
qed

theorem counters_step_and_total_witness:
  "create_cache_struct heap0 ILP32 2 1 1 = Inr (Some two_set_cache)
   \<and> do_references [fetch 0, stray 1, store 2] two_set_cache
       = Inr (two_set_cache
               \<lparr>blocks := [[\<lparr>valid = True, dirty = True, lru_value = 0, tag = 1\<rparr>],
                           [\<lparr>valid = True, dirty = False, lru_value = 0, tag = 0\<rparr>]],
                perf := \<lparr>instruction_reference_count = 1, instruction_miss_count = 1,
                         data_read_reference_count = 0, data_read_miss_count = 0,
                         data_write_reference_count = 1, data_write_miss_count = 1\<rparr>\<rparr>)
   \<and> do_reference (store 2)
        (two_set_cache
               \<lparr>blocks := [[\<lparr>valid = True, dirty = True, lru_value = 0, tag = 1\<rparr>],
                           [\<lparr>valid = True, dirty = False, lru_value = 0, tag = 0\<rparr>]],
                perf := \<lparr>instruction_reference_count = 1, instruction_miss_count = 1,
                         data_read_reference_count = 0, data_read_miss_count = 0,
                         data_write_reference_count = 1, data_write_miss_count = 1\<rparr>\<rparr>)
       = Inr (two_set_cache
               \<lparr>blocks := [[\<lparr>valid = True, dirty = True, lru_value = 0, tag = 1\<rparr>],
                           [\<lparr>valid = True, dirty = False, lru_value = 0, tag = 0\<rparr>]],
                perf := \<lparr>instruction_reference_count = 1, instruction_miss_count = 1,
                         data_read_reference_count = 0, data_read_miss_count = 0,
                         data_write_reference_count = 2, data_write_miss_count = 1\<rparr>\<rparr>)
   \<and> length (typed [fetch 0, stray 1, store 2]) = 2
   \<and> reference_total \<lparr>instruction_reference_count = 1, instruction_miss_count = 1,
                         data_read_reference_count = 0, data_read_miss_count = 0,
                         data_write_reference_count = 1, data_write_miss_count = 1\<rparr>
       = length (typed [fetch 0, stray 1, store 2])
   \<and> perf_le \<lparr>instruction_reference_count = 1, instruction_miss_count = 1,
                         data_read_reference_count = 0, data_read_miss_count = 0,
                         data_write_reference_count = 1, data_write_miss_count = 1\<rparr>
              \<lparr>instruction_reference_count = 1, instruction_miss_count = 1,
                         data_read_reference_count = 0, data_read_miss_count = 0,
                         data_write_reference_count = 2, data_write_miss_count = 1\<rparr>"
proof -
  let ?p1 = "\<lparr>instruction_reference_count = 1, instruction_miss_count = 1,
                         data_read_reference_count = 0, data_read_miss_count = 0,
                         data_write_reference_count = 1, data_write_miss_count = 1\<rparr>"
  let ?p2 = "\<lparr>instruction_reference_count = 1, instruction_miss_count = 1,
                         data_read_reference_count = 0, data_read_miss_count = 0,
                         data_write_reference_count = 2, data_write_miss_count = 1\<rparr>"
  let ?b = "[[\<lparr>valid = True, dirty = True, lru_value = 0, tag = 1\<rparr>],
                           [\<lparr>valid = True, dirty = False, lru_value = 0, tag = 0\<rparr>]]"
  let ?c1 = "two_set_cache\<lparr>blocks := ?b, perf := ?p1\<rparr>"
  let ?c2 = "two_set_cache\<lparr>blocks := ?b, perf := ?p2\<rparr>"
  have c: "create_cache_struct heap0 ILP32 2 1 1 = Inr (Some two_set_cache)" by code_simp
  have r: "do_references [fetch 0, stray 1, store 2] two_set_cache = Inr ?c1" by code_simp
  have s: "do_reference (store 2) ?c1 = Inr ?c2" by code_simp
  have r': "do_references [store 2] ?c1 = Inr ?c2" using s by simp
  have l: "length (typed [fetch 0, stray 1, store 2]) = 2" "length (typed [store 2]) = 1"
    by (simp_all add: typed_def fetch_def stray_def store_def)
  have n: "length (typed [fetch 0, stray 1, store 2]) < 4294967296"
    "length (typed [fetch 0, stray 1, store 2]) + length (typed [store 2]) < 4294967296"
    unfolding l by simp_all
  note t = counters_step_and_total
    [of "store 2" ?c1 ?c2 heap0 ILP32 2 1 1 two_set_cache "[fetch 0, stray 1, store 2]" ?c1
      "[store 2]" ?c2]
  from t c r n have 1: "reference_total (perf ?c1) = length (typed [fetch 0, stray 1, store 2])"
    by blast
  from t c r r' n have 2: "perf_le (perf ?c1) (perf ?c2)" by blast
  from c r s l(1) 1 2 show ?thesis by simp
qed

text \<open>
  A reference with no enumerator in its type is processed (it misses and its block is
  installed) and no counter changes: one reference has been processed and the reference
  counts total 0. And after 4294967295 instruction fetches of address 0 the instruction
  reference count is 4294967295; the next fetch makes it 0, and the reference counts then
  total 0.
\<close>

theorem counters_wrap_counterexample:
  "create_cache_struct heap0 ILP32 1 1 1 = Inr (Some tiny_cache)
   \<and> do_reference (stray 0) tiny_cache = Inr (warm_cache\<lparr>perf := zero_perf\<rparr>)
   \<and> reference_total (perf (warm_cache\<lparr>perf := zero_perf\<rparr>)) = 0
   \<and> do_references (replicate 4294967295 (fetch 0)) tiny_cache
       = Inr (warm_cache\<lparr>perf := (perf warm_cache)\<lparr>instruction_reference_count := 4294967295\<rparr>\<rparr>)
   \<and> do_references (replicate 4294967296 (fetch 0)) tiny_cache
       = Inr (warm_cache\<lparr>perf := (perf warm_cache)\<lparr>instruction_reference_count := 0\<rparr>\<rparr>)
   \<and> reference_total (perf (warm_cache\<lparr>perf := (perf warm_cache)\<lparr>instruction_reference_count := 0\<rparr>\<rparr>))
       = 0"
proof -
  have c: "create_cache_struct heap0 ILP32 1 1 1 = Inr (Some tiny_cache)" by code_simp
  have s: "do_reference (stray 0) tiny_cache = Inr (warm_cache\<lparr>perf := zero_perf\<rparr>)"
    by code_simp
  have s0: "reference_total (perf (warm_cache\<lparr>perf := zero_perf\<rparr>)) = 0"
    by (simp add: reference_total_def zero_perf_def)
  have t: "do_reference (fetch 0) tiny_cache = Inr warm_cache" by code_simp
  have run: "do_references (replicate (Suc n) (fetch 0)) tiny_cache
      = Inr (warm_cache\<lparr>perf := (perf warm_cache)\<lparr>instruction_reference_count :=
               instruction_reference_count (perf warm_cache) + word_of_nat n\<rparr>\<rparr>)" for n
    using warm_run [of n "perf warm_cache"] by (simp add: t)
  have one: "instruction_reference_count (perf warm_cache) = 1" by (simp add: warm_cache_def)
  have a: "do_references (replicate 4294967295 (fetch 0)) tiny_cache
       = Inr (warm_cache\<lparr>perf := (perf warm_cache)\<lparr>instruction_reference_count := 4294967295\<rparr>\<rparr>)"
    using run [of 4294967294] unfolding one by simp
  have b: "do_references (replicate 4294967296 (fetch 0)) tiny_cache
       = Inr (warm_cache\<lparr>perf := (perf warm_cache)\<lparr>instruction_reference_count := 0\<rparr>\<rparr>)"
    using run [of 4294967295] unfolding one by simp
  have z: "reference_total (perf (warm_cache\<lparr>perf := (perf warm_cache)\<lparr>instruction_reference_count := 0\<rparr>\<rparr>))
       = 0"
    by (simp add: reference_total_def warm_cache_def)
  from c s s0 a b z show ?thesis by (intro conjI)
qed

section \<open>C8: the driver and a rejected geometry\<close>

lemma trace_loop_null:
  "trace_loop ms None = Inl NullDereference \<or> trace_loop ms None = Inr None"
  by (cases ms) simp_all

lemma main_rejected_geometry:
  assumes "argc = 5" and "0 < sint sz" and "0 < sint a" and "0 < sint bs"
    and "sint bs \<le> sint sz" and "sint a \<le> sint sz"
    and "create_cache_struct h dm sz a bs = Inr None"
  shows "cachesim_main h dm argc sz a bs trace = Inl NullDereference"
proof (cases trace)
  case None
  with assms show ?thesis by (simp add: cachesim_main_def Let_def)
next
  case (Some ms)
  with assms trace_loop_null [of ms] show ?thesis
    by (auto simp: cachesim_main_def Let_def)
qed

text \<open>
  C8 (a defect of the code). The geometry 96, 1, 32 passes the driver's own checks and
  is rejected by \<^verbatim>\<open>create_cache_struct\<close> (3 sets), which returns \<^verbatim>\<open>NULL\<close>. \<^verbatim>\<open>main\<close> does not
  test the pointer: it goes on to the trace and calls \<^verbatim>\<open>do_reference\<close> on \<^verbatim>\<open>NULL\<close>, and
  when the loop yields no reference it reads the counters through \<^verbatim>\<open>NULL\<close>. It never
  returns an exit code. Arguments that the driver's own checks reject do make it
  return -1.
\<close>

theorem main_null_cache:
  "create_cache_struct heap0 ILP32 96 1 32 = Inr None
   \<and> cachesim_main heap0 ILP32 5 96 1 32 (Some [fetch 0]) = Inl NullDereference
   \<and> cachesim_main heap0 ILP32 5 96 1 32 (Some []) = Inl NullDereference
   \<and> cachesim_main heap0 ILP32 5 0 1 32 (Some [fetch 0]) = Inr (- 1)"
  by code_simp

end
